theory Spec2Isabelle
  imports Complex_Main "HOL-Library.Word"
begin

unbundle bit_operations_syntax

section \<open>Compile-time constants (xsimd\_batch\_constant.hpp)\<close>

text \<open>
  The C++ type \<open>int\<close> is a 32-bit two's complement integer: a \<open>32 word\<close>, read through
  \<open>sint\<close>. \<open>std::size_t\<close> is a \<open>64 word\<close>, read through \<open>unat\<close>.
\<close>

type_synonym cint = "32 word"
type_synonym size_t = "64 word"

text \<open>
  \<open>detail::get_at_index(i, head, tail...)\<close>: the parameter pack is never empty, so it is a
  head and a list. Past the end the recursion stops at the last element.
\<close>

fun get_at_index :: "nat \<Rightarrow> 'a \<Rightarrow> 'a list \<Rightarrow> 'a" where
  "get_at_index i head [] = head"
| "get_at_index i head (t # tail) = (if i = 0 then head else get_at_index (i - 1) t tail)"

text \<open>
  A \<open>batch_bool_constant<batch_type, Values...>\<close> is its pack \<open>Values...\<close>, here a
  \<open>bool list\<close>. \<open>get\<close> is only instantiated on a non-empty pack (a batch has at least one
  lane); the model returns \<open>False\<close> on the empty pack, which C++ refuses to compile.
\<close>

definition bbc_get :: "bool list \<Rightarrow> nat \<Rightarrow> bool" where
  "bbc_get values i = (case values of [] \<Rightarrow> False | v # vs \<Rightarrow> get_at_index i v vs)"

text \<open>
  \<open>mask_helper(acc)\<close> and \<open>mask_helper(acc, mask, masks...)\<close>: the remaining pack is
  shifted left by one at every step, so the element that started at position \<open>i\<close> has been
  shifted \<open>i\<close> times when it is or-ed into the accumulator. The shifts are shifts
  of \<open>int\<close>: with at most 32 values none of them moves a set bit past bit 31, where C++
  leaves the shift undefined and the model drops the bit.
\<close>

fun mask_helper :: "cint \<Rightarrow> cint list \<Rightarrow> cint" where
  "mask_helper acc [] = acc"
| "mask_helper acc (msk # masks) = mask_helper (acc OR msk) (map (\<lambda>m. push_bit 1 m) masks)"

definition static_cast_int :: "bool \<Rightarrow> cint" where
  "static_cast_int v = (if v then 1 else 0)"

definition bbc_mask :: "bool list \<Rightarrow> cint" where
  "bbc_mask values = mask_helper 0 (map static_cast_int values)"

text \<open>The sum the specification names: \<open>2 ^ i\<close> for every true lane \<open>i\<close>.\<close>

definition mask_sum :: "bool list \<Rightarrow> int" where
  "mask_sum values = sum_list (map (\<lambda>i. if values ! i then 2 ^ i else 0) [0..<length values])"

section \<open>Complex batches (xsimd\_batch.hpp)\<close>

text \<open>
  A \<open>batch<std::complex<T>, A>\<close> is a pair of real batches. The lane type \<open>T\<close> is \<open>float\<close>
  or \<open>double\<close>; the real batch is modelled as the list of its lanes over any type with
  \<open>+\<close>, \<open>-\<close> and \<open>*\<close>, and the real-batch operators are lane-wise (their kernels are not
  part of the sources at hand).
\<close>

record 'a complex_batch =
  m_real :: "'a list"
  m_imag :: "'a list"

definition real_mul :: "'a::times list \<Rightarrow> 'a list \<Rightarrow> 'a list" where
  "real_mul x y = map2 (*) x y"

definition real_sub :: "'a::minus list \<Rightarrow> 'a list \<Rightarrow> 'a list" where
  "real_sub x y = map2 (-) x y"

definition real_add :: "'a::plus list \<Rightarrow> 'a list \<Rightarrow> 'a list" where
  "real_add x y = map2 (+) x y"

text \<open>\<open>batch<std::complex<T>, A>::operator*=\<close>, returning the updated \<open>*this\<close>.\<close>

definition complex_mul_assign ::
  "('a::{plus,minus,times}) complex_batch \<Rightarrow> 'a complex_batch \<Rightarrow> 'a complex_batch" where
  "complex_mul_assign self other =
     (let new_real = real_sub (real_mul (m_real self) (m_real other))
                              (real_mul (m_imag self) (m_imag other));
          new_imag = real_add (real_mul (m_real self) (m_imag other))
                              (real_mul (m_imag self) (m_real other))
      in self\<lparr>m_real := new_real, m_imag := new_imag\<rparr>)"

section \<open>Construction from an explicit lane list (xsimd\_batch.hpp)\<close>

text \<open>
  A \<open>std::initializer_list<T>\<close> is a pointer \<open>begin()\<close> and a length \<open>size()\<close>. The
  constructors read through the pointer, so the model keeps what memory holds at
  \<open>begin() + i\<close> for every \<open>i\<close>; only the indices below \<open>il_size\<close> belong to the list.
\<close>

record 'a initializer_list =
  il_mem :: "nat \<Rightarrow> 'a"
  il_size :: nat

definition il_of_list :: "'a list \<Rightarrow> 'a initializer_list" where
  "il_of_list xs = \<lparr>il_mem = (\<lambda>i. xs ! i), il_size = length xs\<rparr>"

datatype failure = AssertionFailed

text \<open>
  The private constructors \<open>batch(T const* data, index_sequence<Is...>)\<close> and
  \<open>batch_bool(bool const* data, index_sequence<Is...>)\<close> pass \<open>data[Is]...\<close> for
  \<open>Is = 0, ..., size - 1\<close> to \<open>kernel::set\<close>: lane \<open>i\<close> is \<open>data[i]\<close>.
\<close>

definition from_pointer :: "nat \<Rightarrow> (nat \<Rightarrow> 'a) \<Rightarrow> 'a list" where
  "from_pointer sz data = map data [0..<sz]"

text \<open>
  \<open>batch<T, A>::batch(std::initializer_list<T> data)\<close>: the delegated constructor
  runs first, then the body's \<open>assert(data.size() == size)\<close> (assertions enabled, that is
  \<open>NDEBUG\<close> not defined).
\<close>

definition batch_init :: "nat \<Rightarrow> 'a initializer_list \<Rightarrow> failure + 'a list" where
  "batch_init sz data =
     (let b = from_pointer sz (il_mem data)
      in if il_size data = sz then Inr b else Inl AssertionFailed)"

text \<open>
  \<open>batch_bool<T, A>::batch_bool(std::initializer_list<bool> data)\<close>: the same
  delegation, and an empty body.
\<close>

definition batch_bool_init :: "nat \<Rightarrow> bool initializer_list \<Rightarrow> failure + bool list" where
  "batch_bool_init sz data = Inr (from_pointer sz (il_mem data))"

section \<open>SIMD registers\<close>

text \<open>
  A register is its bits: \<open>__m256i\<close> is a \<open>256 word\<close>, \<open>__m128i\<close> a \<open>128 word\<close>. A
  \<open>batch<T, A>\<close> and a \<open>batch_bool<T, A>\<close> are that register together with the static
  element type \<open>T\<close>; the intrinsics see only the register, and each of them cuts it into
  lanes of its own width, the lowest bits being lane 0.
\<close>

type_synonym m256i = "256 word"

definition lane :: "nat \<Rightarrow> 'r::len word \<Rightarrow> 'a::len word" where
  "lane i r = ucast (drop_bit (i * LENGTH('a)) r)"

definition lanes :: "'r::len word \<Rightarrow> 'a::len word list" where
  "lanes r = map (\<lambda>i. lane i r) [0..<LENGTH('r) div LENGTH('a)]"

fun of_lanes :: "'a::len word list \<Rightarrow> 'r::len word" where
  "of_lanes [] = 0"
| "of_lanes (x # xs) = ucast x OR push_bit LENGTH('a) (of_lanes xs)"

definition lanewise :: "('a::len word \<Rightarrow> 'a word) \<Rightarrow> 'r::len word \<Rightarrow> 'r word" where
  "lanewise f a = of_lanes (map f (lanes a))"

definition lanewise2 ::
  "('a::len word \<Rightarrow> 'a word \<Rightarrow> 'a word) \<Rightarrow> 'r::len word \<Rightarrow> 'r word \<Rightarrow> 'r word" where
  "lanewise2 f a b = of_lanes (map2 f (lanes a) (lanes b))"

section \<open>The avx2 intrinsics the kernels use\<close>

text \<open>
  Each intrinsic is the operation of Intel's instruction reference on the lanes of its
  width. \<open>_mm256_shuffle_epi32\<close> works inside each 128-bit half: result dword \<open>j\<close> of a
  half is the dword of that half selected by bits \<open>2j+1 : 2j\<close> of the immediate.
\<close>

definition mm256_setzero_si256 :: m256i where
  "mm256_setzero_si256 = 0"

definition mm256_shuffle_epi32 :: "m256i \<Rightarrow> nat \<Rightarrow> m256i" where
  "mm256_shuffle_epi32 a imm8 =
     of_lanes (map (\<lambda>j. (lane (4 * (j div 4) + (imm8 div 4 ^ (j mod 4)) mod 4) a :: 32 word))
                   [0..<8])"

definition mm256_mullo_epi16 :: "m256i \<Rightarrow> m256i \<Rightarrow> m256i" where
  "mm256_mullo_epi16 a b = lanewise2 (\<lambda>x y :: 16 word. x * y) a b"

definition mm256_mullo_epi32 :: "m256i \<Rightarrow> m256i \<Rightarrow> m256i" where
  "mm256_mullo_epi32 a b = lanewise2 (\<lambda>x y :: 32 word. x * y) a b"

text \<open>
  \<open>_mm256_hadd_epi32\<close>: in each 128-bit half, the two sums of adjacent dwords of \<open>a\<close>, then
  the two sums of adjacent dwords of \<open>b\<close>.
\<close>

definition mm256_hadd_epi32 :: "m256i \<Rightarrow> m256i \<Rightarrow> m256i" where
  "mm256_hadd_epi32 a b =
     of_lanes [lane 0 a + lane 1 a, lane 2 a + lane 3 a, lane 0 b + lane 1 b, lane 2 b + lane 3 b,
               lane 4 a + lane 5 a, lane 6 a + lane 7 a, lane 4 b + lane 5 b, lane 6 b + (lane 7 b :: 32 word)]"

text \<open>
  \<open>_mm256_mul_epu32\<close>: the full 64-bit product of the low dwords of each 64-bit lane, both
  read as unsigned.
\<close>

definition mm256_mul_epu32 :: "m256i \<Rightarrow> m256i \<Rightarrow> m256i" where
  "mm256_mul_epu32 a b =
     of_lanes (map (\<lambda>k. (ucast (lane (2 * k) a :: 32 word) :: 64 word) * ucast (lane (2 * k) b :: 32 word))
                   [0..<4])"

definition mm256_add_epi64 :: "m256i \<Rightarrow> m256i \<Rightarrow> m256i" where
  "mm256_add_epi64 a b = lanewise2 (\<lambda>x y :: 64 word. x + y) a b"

text \<open>
  The immediate shifts take the low 8 bits of their count. \<open>_mm256_srai_epi16\<close> and
  \<open>_mm256_srai_epi32\<close> shift in copies of the sign bit, and fill the lane with it when the
  count exceeds the lane width; \<open>_mm256_srli_epi16/32/64\<close> shift in zeros and return zero
  when the count exceeds the lane width.
\<close>

definition count8 :: "cint \<Rightarrow> nat" where
  "count8 c = unat (take_bit 8 c)"

definition mm256_srai_epi16 :: "m256i \<Rightarrow> cint \<Rightarrow> m256i" where
  "mm256_srai_epi16 a c =
     lanewise (\<lambda>x :: 16 word. if count8 c > 15 then (if bit x 15 then - 1 else 0)
                                else signed_drop_bit (count8 c) x) a"

definition mm256_srai_epi32 :: "m256i \<Rightarrow> cint \<Rightarrow> m256i" where
  "mm256_srai_epi32 a c =
     lanewise (\<lambda>x :: 32 word. if count8 c > 31 then (if bit x 31 then - 1 else 0)
                                else signed_drop_bit (count8 c) x) a"

definition mm256_srli_epi16 :: "m256i \<Rightarrow> cint \<Rightarrow> m256i" where
  "mm256_srli_epi16 a c = lanewise (\<lambda>x :: 16 word. if count8 c > 15 then 0 else drop_bit (count8 c) x) a"

definition mm256_srli_epi32 :: "m256i \<Rightarrow> cint \<Rightarrow> m256i" where
  "mm256_srli_epi32 a c = lanewise (\<lambda>x :: 32 word. if count8 c > 31 then 0 else drop_bit (count8 c) x) a"

definition mm256_srli_epi64 :: "m256i \<Rightarrow> cint \<Rightarrow> m256i" where
  "mm256_srli_epi64 a c = lanewise (\<lambda>x :: 64 word. if count8 c > 63 then 0 else drop_bit (count8 c) x) a"

text \<open>\<open>_mm256_set1_epi16(short a)\<close>: the \<open>int\<close> argument is converted to \<open>short\<close>.\<close>

definition mm256_set1_epi16 :: "cint \<Rightarrow> m256i" where
  "mm256_set1_epi16 a = of_lanes (replicate 16 (ucast a :: 16 word))"

text \<open>The signed comparisons: a lane of all ones where \<open>a > b\<close>, of all zeros elsewhere.\<close>

definition mm256_cmpgt_epi8 :: "m256i \<Rightarrow> m256i \<Rightarrow> m256i" where
  "mm256_cmpgt_epi8 a b = lanewise2 (\<lambda>x y :: 8 word. if sint x > sint y then - 1 else 0) a b"

definition mm256_or_si256 :: "m256i \<Rightarrow> m256i \<Rightarrow> m256i" where
  "mm256_or_si256 a b = a OR b"

text \<open>\<open>_mm256_andnot_si256(a, b)\<close> is \<open>(NOT a) AND b\<close>.\<close>

definition mm256_andnot_si256 :: "m256i \<Rightarrow> m256i \<Rightarrow> m256i" where
  "mm256_andnot_si256 a b = NOT a AND b"

text \<open>
  Modelled from the spec: \<open>detail::fwd_to_sse\<close> and the sse4.2 kernel \<open>bitwise_and\<close> of
  the ancestor tiers, which the sources at hand do not contain. The specification makes
  \<open>bitwise_and\<close> the bitwise operation on the register; \<open>fwd_to_sse\<close>, as its use in
  \<open>bitwise_rshift\<close> shows, applies a 128-bit operation to the low halves and to the high
  halves of its two arguments and joins the two results.
\<close>

definition fwd_to_sse :: "(128 word \<Rightarrow> 128 word \<Rightarrow> 128 word) \<Rightarrow> m256i \<Rightarrow> m256i \<Rightarrow> m256i" where
  "fwd_to_sse f a b =
     word_cat (f (ucast (drop_bit 128 a)) (ucast (drop_bit 128 b))) (f (ucast a) (ucast b))"

definition sse_bitwise_and :: "128 word \<Rightarrow> 128 word \<Rightarrow> 128 word" where
  "sse_bitwise_and s o' = s AND o'"

text \<open>
  \<open>_mm256_blendv_epi8(a, b, mask)\<close>: byte \<open>i\<close> of the result is byte \<open>i\<close> of \<open>b\<close> where the
  highest bit of byte \<open>i\<close> of \<open>mask\<close> is set, of \<open>a\<close> elsewhere.
  \<open>_mm256_blend_epi32(a, b, imm8)\<close>: dword \<open>j\<close> of the result is dword \<open>j\<close> of \<open>b\<close> where bit
  \<open>j\<close> of the immediate is set, of \<open>a\<close> elsewhere.
\<close>

definition mm256_blendv_epi8 :: "m256i \<Rightarrow> m256i \<Rightarrow> m256i \<Rightarrow> m256i" where
  "mm256_blendv_epi8 a b msk =
     of_lanes (map (\<lambda>i. if bit (lane i msk :: 8 word) 7 then lane i b else (lane i a :: 8 word))
                   [0..<32])"

definition mm256_blend_epi32 :: "m256i \<Rightarrow> m256i \<Rightarrow> cint \<Rightarrow> m256i" where
  "mm256_blend_epi32 a b imm =
     of_lanes (map (\<lambda>j. if bit imm j then lane j b else (lane j a :: 32 word)) [0..<8])"

text \<open>The other signed comparisons and the equality comparisons, lane by lane.\<close>

definition mm256_cmpgt_epi16 :: "m256i \<Rightarrow> m256i \<Rightarrow> m256i" where
  "mm256_cmpgt_epi16 a b = lanewise2 (\<lambda>x y :: 16 word. if sint x > sint y then - 1 else 0) a b"

definition mm256_cmpgt_epi32 :: "m256i \<Rightarrow> m256i \<Rightarrow> m256i" where
  "mm256_cmpgt_epi32 a b = lanewise2 (\<lambda>x y :: 32 word. if sint x > sint y then - 1 else 0) a b"

definition mm256_cmpgt_epi64 :: "m256i \<Rightarrow> m256i \<Rightarrow> m256i" where
  "mm256_cmpgt_epi64 a b = lanewise2 (\<lambda>x y :: 64 word. if sint x > sint y then - 1 else 0) a b"

definition mm256_cmpeq_epi8 :: "m256i \<Rightarrow> m256i \<Rightarrow> m256i" where
  "mm256_cmpeq_epi8 a b = lanewise2 (\<lambda>x y :: 8 word. if x = y then - 1 else 0) a b"

definition mm256_cmpeq_epi16 :: "m256i \<Rightarrow> m256i \<Rightarrow> m256i" where
  "mm256_cmpeq_epi16 a b = lanewise2 (\<lambda>x y :: 16 word. if x = y then - 1 else 0) a b"

definition mm256_cmpeq_epi32 :: "m256i \<Rightarrow> m256i \<Rightarrow> m256i" where
  "mm256_cmpeq_epi32 a b = lanewise2 (\<lambda>x y :: 32 word. if x = y then - 1 else 0) a b"

definition mm256_cmpeq_epi64 :: "m256i \<Rightarrow> m256i \<Rightarrow> m256i" where
  "mm256_cmpeq_epi64 a b = lanewise2 (\<lambda>x y :: 64 word. if x = y then - 1 else 0) a b"

definition mm256_xor_si256 :: "m256i \<Rightarrow> m256i \<Rightarrow> m256i" where
  "mm256_xor_si256 a b = a XOR b"

definition mm256_set1_epi32 :: "cint \<Rightarrow> m256i" where
  "mm256_set1_epi32 a = of_lanes (replicate 8 a)"

section \<open>The avx2 kernels (xsimd\_avx2.hpp)\<close>

text \<open>
  The integer element types \<open>T\<close> of a batch, with \<open>sizeof(T)\<close> and
  \<open>std::is_signed<T>::value\<close>. A kernel takes \<open>T\<close> as its first argument, where the C++
  template takes it as a template parameter.
\<close>

datatype int_type = Int8 | UInt8 | Int16 | UInt16 | Int32 | UInt32 | Int64 | UInt64

fun sizeof :: "int_type \<Rightarrow> nat" where
  "sizeof Int8 = 1" | "sizeof UInt8 = 1"
| "sizeof Int16 = 2" | "sizeof UInt16 = 2"
| "sizeof Int32 = 4" | "sizeof UInt32 = 4"
| "sizeof Int64 = 8" | "sizeof UInt64 = 8"

fun is_signed :: "int_type \<Rightarrow> bool" where
  "is_signed Int8 = True" | "is_signed UInt8 = False"
| "is_signed Int16 = True" | "is_signed UInt16 = False"
| "is_signed Int32 = True" | "is_signed UInt32 = False"
| "is_signed Int64 = True" | "is_signed UInt64 = False"

text \<open>
  Modelled from the spec: the kernel \<open>mul(self, other, avx {})\<close> of the ancestor tier,
  which the sources at hand do not contain and which the avx2 kernel reaches for 1-byte
  elements only. The specification gives it lane-wise two's-complement wraparound
  semantics.
\<close>

definition avx_mul :: "int_type \<Rightarrow> m256i \<Rightarrow> m256i \<Rightarrow> m256i" where
  "avx_mul T self other = lanewise2 (\<lambda>x y :: 8 word. x * y) self other"

text \<open>\<open>kernel::mul(batch<T, A> const& self, batch<T, A> const& other, requires_arch<avx2>)\<close>.\<close>

definition mul :: "int_type \<Rightarrow> m256i \<Rightarrow> m256i \<Rightarrow> m256i" where
  "mul T self other =
     (if sizeof T = 2 then mm256_mullo_epi16 self other
      else if sizeof T = 4 then mm256_mullo_epi32 self other
      else if sizeof T = 8 then
        (let bswap = mm256_shuffle_epi32 other 0xB1;
             prodlh = mm256_mullo_epi32 self bswap;
             zero = mm256_setzero_si256;
             prodlh2 = mm256_hadd_epi32 prodlh zero;
             prodlh3 = mm256_shuffle_epi32 prodlh2 0x73;
             prodll = mm256_mul_epu32 self other
         in mm256_add_epi64 prodll prodlh3)
      else avx_mul T self other)"

text \<open>
  Modelled from the spec: the kernel \<open>bitwise_rshift(self, other, avx {})\<close> of the ancestor
  tier, which the sources at hand do not contain and which the avx2 kernel reaches for
  signed 8-byte and unsigned 1-byte elements. The specification makes the right shift
  arithmetic on signed types and logical on unsigned types.
\<close>

definition avx_bitwise_rshift :: "int_type \<Rightarrow> m256i \<Rightarrow> cint \<Rightarrow> m256i" where
  "avx_bitwise_rshift T self other =
     (if is_signed T then
        (if sizeof T = 1 then lanewise (\<lambda>x :: 8 word. signed_drop_bit (unat other) x) self
         else if sizeof T = 2 then lanewise (\<lambda>x :: 16 word. signed_drop_bit (unat other) x) self
         else if sizeof T = 4 then lanewise (\<lambda>x :: 32 word. signed_drop_bit (unat other) x) self
         else lanewise (\<lambda>x :: 64 word. signed_drop_bit (unat other) x) self)
      else
        (if sizeof T = 1 then lanewise (\<lambda>x :: 8 word. drop_bit (unat other) x) self
         else if sizeof T = 2 then lanewise (\<lambda>x :: 16 word. drop_bit (unat other) x) self
         else if sizeof T = 4 then lanewise (\<lambda>x :: 32 word. drop_bit (unat other) x) self
         else lanewise (\<lambda>x :: 64 word. drop_bit (unat other) x) self))"

text \<open>
  \<open>kernel::bitwise_rshift(batch<T, A> const& self, int32_t other, requires_arch<avx2>)\<close>.
  The expression \<open>(0xFF00 >> other) & 0x00FF\<close> is computed on \<open>int\<close>; C++ defines it
  for \<open>0 \<le> other < 32\<close> only.
\<close>

definition bitwise_rshift :: "int_type \<Rightarrow> m256i \<Rightarrow> cint \<Rightarrow> m256i" where
  "bitwise_rshift T self other =
     (if is_signed T then
        (if sizeof T = 1 then
           (let sign_mask = mm256_set1_epi16 (drop_bit (unat other) 0xFF00 AND 0x00FF);
                cmp_is_negative = mm256_cmpgt_epi8 mm256_setzero_si256 self;
                res = mm256_srai_epi16 self other
            in mm256_or_si256 (fwd_to_sse sse_bitwise_and sign_mask cmp_is_negative)
                              (mm256_andnot_si256 sign_mask res))
         else if sizeof T = 2 then mm256_srai_epi16 self other
         else if sizeof T = 4 then mm256_srai_epi32 self other
         else avx_bitwise_rshift T self other)
      else
        (if sizeof T = 2 then mm256_srli_epi16 self other
         else if sizeof T = 4 then mm256_srli_epi32 self other
         else if sizeof T = 8 then mm256_srli_epi64 self other
         else avx_bitwise_rshift T self other))"

text \<open>\<open>batch<T, A>::operator>>=(int32_t other)\<close> with \<open>A = avx2\<close>, returning the new \<open>*this\<close>.\<close>

definition batch_rshift_assign :: "int_type \<Rightarrow> m256i \<Rightarrow> cint \<Rightarrow> m256i" where
  "batch_rshift_assign T self other = bitwise_rshift T self other"

text \<open>
  Modelled from the spec: \<open>kernel::set\<close> behind \<open>batch_bool<T, A> { Values... }\<close>, which
  the sources at hand do not contain. A boolean lane is stored as the all-ones pattern
  for \<open>true\<close> and the all-zeros pattern for \<open>false\<close>, of the width of \<open>T\<close>.
\<close>

definition bool_pattern :: "bool \<Rightarrow> 'a::len word" where
  "bool_pattern v = (if v then - 1 else 0)"

definition batch_bool_set :: "int_type \<Rightarrow> bool list \<Rightarrow> m256i" where
  "batch_bool_set T vs =
     (if sizeof T = 1 then of_lanes (map bool_pattern vs :: 8 word list)
      else if sizeof T = 2 then of_lanes (map bool_pattern vs :: 16 word list)
      else if sizeof T = 4 then of_lanes (map bool_pattern vs :: 32 word list)
      else of_lanes (map bool_pattern vs :: 64 word list))"

text \<open>
  Modelled from the spec: the kernel \<open>select(cond, true_br, false_br, avx {})\<close> of the
  ancestor tier, which the sources at hand do not contain. No integer type reaches it:
  every \<open>sizeof(T)\<close> is 1, 2, 4 or 8.
\<close>

definition avx_select :: "int_type \<Rightarrow> m256i \<Rightarrow> m256i \<Rightarrow> m256i \<Rightarrow> m256i" where
  "avx_select T cond true_br false_br = (cond AND true_br) OR (NOT cond AND false_br)"

text \<open>
  \<open>kernel::select(batch_bool<T, A> const& cond, batch<T, A> const& true_br,
  batch<T, A> const& false_br, requires_arch<avx2>)\<close>.
\<close>

definition select :: "int_type \<Rightarrow> m256i \<Rightarrow> m256i \<Rightarrow> m256i \<Rightarrow> m256i" where
  "select T cond true_br false_br =
     (if sizeof T = 1 then mm256_blendv_epi8 false_br true_br cond
      else if sizeof T = 2 then mm256_blendv_epi8 false_br true_br cond
      else if sizeof T = 4 then mm256_blendv_epi8 false_br true_br cond
      else if sizeof T = 8 then mm256_blendv_epi8 false_br true_br cond
      else avx_select T cond true_br false_br)"

text \<open>
  \<open>kernel::select(batch_bool_constant<batch<T, A>, Values...> const&, ...)\<close>. The helper
  \<open>detail::interleave\<close> is not part of the sources at hand: it is the first argument.
\<close>

definition select_constant ::
  "(cint \<Rightarrow> cint) \<Rightarrow> int_type \<Rightarrow> bool list \<Rightarrow> m256i \<Rightarrow> m256i \<Rightarrow> m256i" where
  "select_constant interleave T vs true_br false_br =
     (let msk = bbc_mask vs
      in if sizeof T = 4 then mm256_blend_epi32 false_br true_br msk
         else if sizeof T = 8 then
           (let imask = interleave msk in mm256_blend_epi32 false_br true_br imask)
         else select T (batch_bool_set T vs) true_br false_br)"

text \<open>
  A bit doubling \<open>interleave\<close>, to instantiate the argument above: bit \<open>i\<close> of the mask goes
  to bits \<open>2i\<close> and \<open>2i + 1\<close>.
\<close>

definition interleave_bits :: "cint \<Rightarrow> cint" where
  "interleave_bits m = horner_sum of_bool 2 (map (\<lambda>n. bit m (n div 2)) [0..<32])"

text \<open>
  Modelled from the spec: \<open>batch_bool::get(i)\<close> goes through \<open>kernel::store\<close>, which the
  sources at hand do not contain. Lane \<open>i\<close> reads \<open>true\<close> for the all-ones pattern and
  \<open>false\<close> for the all-zeros pattern; the model reads every other pattern as \<open>true\<close>.
  A batch_bool is valid when each of its lanes is one of the two patterns.
\<close>

definition bool_of_lane :: "'a::len word \<Rightarrow> bool" where
  "bool_of_lane x = (x \<noteq> 0)"

definition valid_lane :: "'a::len word \<Rightarrow> bool" where
  "valid_lane x = (x = 0 \<or> x = - 1)"

text \<open>
  Modelled from the spec: \<open>kernel::broadcast\<close>, behind the constructor \<open>batch(T val)\<close>,
  which the sources at hand do not contain: every lane of the batch is \<open>val\<close>. The value
  arrives converted to \<open>T\<close>; the conversions in the code modelled here start from a
  \<open>std::size_t\<close> or a non-negative literal, so they keep the low \<open>8 * sizeof(T)\<close> bits.
\<close>

definition set1 :: "'a::len word \<Rightarrow> m256i" where
  "set1 v = of_lanes (replicate (256 div LENGTH('a)) v)"

definition broadcast :: "int_type \<Rightarrow> 'v::len word \<Rightarrow> m256i" where
  "broadcast T val =
     (if sizeof T = 1 then set1 (ucast val :: 8 word)
      else if sizeof T = 2 then set1 (ucast val :: 16 word)
      else if sizeof T = 4 then set1 (ucast val :: 32 word)
      else set1 (ucast val :: 64 word))"

text \<open>
  Modelled from the spec: the kernels \<open>eq(self, other, avx {})\<close> and
  \<open>gt(self, other, avx {})\<close> of the ancestor tier, which the sources at hand do not
  contain. No integer type reaches the first; the second is the comparison of unsigned
  lanes.
\<close>

definition avx_eq :: "int_type \<Rightarrow> m256i \<Rightarrow> m256i \<Rightarrow> m256i" where
  "avx_eq T self other = mm256_cmpeq_epi8 self other"

definition avx_gt :: "int_type \<Rightarrow> m256i \<Rightarrow> m256i \<Rightarrow> m256i" where
  "avx_gt T self other =
     (if sizeof T = 1 then lanewise2 (\<lambda>x y :: 8 word. if x > y then - 1 else 0) self other
      else if sizeof T = 2 then lanewise2 (\<lambda>x y :: 16 word. if x > y then - 1 else 0) self other
      else if sizeof T = 4 then lanewise2 (\<lambda>x y :: 32 word. if x > y then - 1 else 0) self other
      else lanewise2 (\<lambda>x y :: 64 word. if x > y then - 1 else 0) self other)"

text \<open>\<open>kernel::eq\<close>, \<open>kernel::gt\<close> and \<open>kernel::bitwise_not\<close> (on \<open>batch_bool\<close>) for avx2.\<close>

definition eq :: "int_type \<Rightarrow> m256i \<Rightarrow> m256i \<Rightarrow> m256i" where
  "eq T self other =
     (if sizeof T = 1 then mm256_cmpeq_epi8 self other
      else if sizeof T = 2 then mm256_cmpeq_epi16 self other
      else if sizeof T = 4 then mm256_cmpeq_epi32 self other
      else if sizeof T = 8 then mm256_cmpeq_epi64 self other
      else avx_eq T self other)"

definition gt :: "int_type \<Rightarrow> m256i \<Rightarrow> m256i \<Rightarrow> m256i" where
  "gt T self other =
     (if is_signed T then
        (if sizeof T = 1 then mm256_cmpgt_epi8 self other
         else if sizeof T = 2 then mm256_cmpgt_epi16 self other
         else if sizeof T = 4 then mm256_cmpgt_epi32 self other
         else if sizeof T = 8 then mm256_cmpgt_epi64 self other
         else avx_gt T self other)
      else avx_gt T self other)"

definition bitwise_not :: "int_type \<Rightarrow> m256i \<Rightarrow> m256i" where
  "bitwise_not T self = mm256_xor_si256 self (mm256_set1_epi32 (- 1))"

text \<open>
  Modelled from the spec: \<open>kernel::lt\<close> and \<open>kernel::neq\<close>, which the sources at hand do
  not contain. The specification derives them from \<open>gt\<close> and \<open>eq\<close>: \<open>a < b\<close> is \<open>b > a\<close>,
  and \<open>a != b\<close> is \<open>!(a == b)\<close> lane-wise.
\<close>

definition lt :: "int_type \<Rightarrow> m256i \<Rightarrow> m256i \<Rightarrow> m256i" where
  "lt T self other = gt T other self"

definition neq :: "int_type \<Rightarrow> m256i \<Rightarrow> m256i \<Rightarrow> m256i" where
  "neq T self other = bitwise_not T (eq T self other)"

text \<open>
  \<open>batch<T, avx2>::size\<close> is \<open>sizeof(simd_register<T, avx2>) / sizeof(T)\<close>; the register
  of avx2 has 32 bytes.
\<close>

definition batch_size :: "int_type \<Rightarrow> nat" where
  "batch_size T = 32 div sizeof T"

text \<open>
  Modelled from the spec: \<open>kernel::set\<close> and \<open>kernel::load_aligned\<close> behind the lane-list
  constructor and \<open>batch::load_aligned\<close>, and \<open>kernel::store_aligned\<close> behind
  \<open>batch::get\<close>, which the sources at hand do not contain. Lane \<open>i\<close> of the batch is
  element \<open>i\<close> of the list, converted to \<open>T\<close>; \<open>get(i)\<close> is the value of lane \<open>i\<close>,
  read as a signed number when \<open>T\<close> is signed and as an unsigned number otherwise.
\<close>

definition batch_set :: "int_type \<Rightarrow> 'v::len word list \<Rightarrow> m256i" where
  "batch_set T vs =
     (if sizeof T = 1 then of_lanes (map ucast vs :: 8 word list)
      else if sizeof T = 2 then of_lanes (map ucast vs :: 16 word list)
      else if sizeof T = 4 then of_lanes (map ucast vs :: 32 word list)
      else of_lanes (map ucast vs :: 64 word list))"

definition read_lane :: "bool \<Rightarrow> 'a::len word \<Rightarrow> int" where
  "read_lane signed_T x = (if signed_T then sint x else uint x)"

definition batch_get :: "int_type \<Rightarrow> m256i \<Rightarrow> nat \<Rightarrow> int" where
  "batch_get T self i =
     (if sizeof T = 1 then read_lane (is_signed T) (lane i self :: 8 word)
      else if sizeof T = 2 then read_lane (is_signed T) (lane i self :: 16 word)
      else if sizeof T = 4 then read_lane (is_signed T) (lane i self :: 32 word)
      else read_lane (is_signed T) (lane i self :: 64 word))"

section \<open>Gather utilities (xsimd\_gather\_utils.hpp)\<close>

text \<open>\<open>detail::ramp_generator::get(index, size)\<close>.\<close>

definition ramp_generator_get :: "size_t \<Rightarrow> size_t \<Rightarrow> size_t" where
  "ramp_generator_get index sz = index"

text \<open>
  \<open>make_batch_constant<batch_type, G>()\<close>: the pack \<open>G::get(Is, size)...\<close> for
  \<open>Is = 0, ..., size - 1\<close>. The conversion of the constant to a batch is \<open>{ Values... }\<close>,
  that is \<open>batch_set\<close>.
\<close>

definition make_batch_constant :: "nat \<Rightarrow> (size_t \<Rightarrow> size_t \<Rightarrow> size_t) \<Rightarrow> size_t list" where
  "make_batch_constant sz G = map (\<lambda>i. G (of_nat i) (of_nat sz)) [0..<sz]"

text \<open>
  \<open>stride_offset<batch<T, avx2>>\<close> holding \<open>stride\<close>: \<open>get(i)\<close> on \<open>std::size_t\<close>, and
  the conversion to a batch, \<open>(batch_type)ramp * (value_type)stride\<close>.
\<close>

definition stride_offset_get :: "size_t \<Rightarrow> size_t \<Rightarrow> size_t" where
  "stride_offset_get stride i = stride * i"

definition stride_offset_batch :: "int_type \<Rightarrow> size_t \<Rightarrow> m256i" where
  "stride_offset_batch T stride =
     (let ramp = make_batch_constant (batch_size T) ramp_generator_get
      in mul T (batch_set T ramp) (broadcast T stride))"

text \<open>
  \<open>as_integer_t<batch<T, A>>\<close> is the batch of the signed integer type of the size of
  \<open>T\<close> (its declaration is not part of the sources at hand; the comment in
  \<open>first_n_true\<close> states the signedness).
\<close>

fun as_integer :: "int_type \<Rightarrow> int_type" where
  "as_integer Int8 = Int8" | "as_integer UInt8 = Int8"
| "as_integer Int16 = Int16" | "as_integer UInt16 = Int16"
| "as_integer Int32 = Int32" | "as_integer UInt32 = Int32"
| "as_integer Int64 = Int64" | "as_integer UInt64 = Int64"

text \<open>
  \<open>first_n_true<batch<T, avx2>>\<close> holding \<open>n\<close>: \<open>get(i)\<close> compares on \<open>std::size_t\<close>; the
  conversion to a batch_bool is \<open>(int_batch)ramp < int_batch(n)\<close>, reinterpreted as a
  \<open>batch_bool<T, avx2>\<close>.
\<close>

definition first_n_true_get :: "size_t \<Rightarrow> size_t \<Rightarrow> bool" where
  "first_n_true_get n i = (i < n)"

definition first_n_true_batch :: "int_type \<Rightarrow> size_t \<Rightarrow> m256i" where
  "first_n_true_batch T n =
     (let ramp = make_batch_constant (batch_size (as_integer T)) ramp_generator_get
      in lt (as_integer T) (batch_set (as_integer T) ramp) (broadcast (as_integer T) n))"

text \<open>
  \<open>detail::allow_signed_conversion<batch<T, avx2>>\<close> holding the batch \<open>b\<close>.
  \<open>make_signed\<close> and \<open>make_unsigned\<close> are the standard type traits. Modelled from the
  spec: \<open>xsimd::bitwise_cast\<close>, which the sources at hand do not contain, keeps the bits
  of the register. \<open>static_cast<unsigned_t>\<close> of a value reduces it modulo
  \<open>2 ^ (8 * sizeof(T))\<close>.
\<close>

fun make_signed :: "int_type \<Rightarrow> int_type" where
  "make_signed Int8 = Int8" | "make_signed UInt8 = Int8"
| "make_signed Int16 = Int16" | "make_signed UInt16 = Int16"
| "make_signed Int32 = Int32" | "make_signed UInt32 = Int32"
| "make_signed Int64 = Int64" | "make_signed UInt64 = Int64"

fun make_unsigned :: "int_type \<Rightarrow> int_type" where
  "make_unsigned Int8 = UInt8" | "make_unsigned UInt8 = UInt8"
| "make_unsigned Int16 = UInt16" | "make_unsigned UInt16 = UInt16"
| "make_unsigned Int32 = UInt32" | "make_unsigned UInt32 = UInt32"
| "make_unsigned Int64 = UInt64" | "make_unsigned UInt64 = UInt64"

definition bitwise_cast :: "m256i \<Rightarrow> m256i" where
  "bitwise_cast b = b"

definition static_cast_unsigned :: "int_type \<Rightarrow> int \<Rightarrow> int" where
  "static_cast_unsigned T v = v mod 2 ^ (8 * sizeof T)"

definition allow_signed_conversion_batch :: "int_type \<Rightarrow> m256i \<Rightarrow> m256i" where
  "allow_signed_conversion_batch T b = bitwise_cast b"

definition allow_signed_conversion_get :: "int_type \<Rightarrow> m256i \<Rightarrow> nat \<Rightarrow> int" where
  "allow_signed_conversion_get T b i = static_cast_unsigned T (batch_get T b i)"

section \<open>Boolean batches in memory (xsimd\_batch.hpp)\<close>

text \<open>
  A \<open>bool\<close> array is a list of bytes; a byte reads as \<open>true\<close> when it is not zero, and
  \<open>true\<close> is written as 1.

  Modelled from the spec: \<open>kernel::store(batch_bool, bool*)\<close> behind
  \<open>batch_bool::store_aligned\<close>, which the sources at hand do not contain: element \<open>i\<close> of
  the array is the truth value of lane \<open>i\<close>.
\<close>

definition bool_byte :: "bool \<Rightarrow> 8 word" where
  "bool_byte v = (if v then 1 else 0)"

definition batch_bool_store_aligned :: "int_type \<Rightarrow> m256i \<Rightarrow> 8 word list" where
  "batch_bool_store_aligned T self =
     (if sizeof T = 1 then map (\<lambda>i. bool_byte (bool_of_lane (lane i self :: 8 word))) [0..<batch_size T]
      else if sizeof T = 2 then map (\<lambda>i. bool_byte (bool_of_lane (lane i self :: 16 word))) [0..<batch_size T]
      else if sizeof T = 4 then map (\<lambda>i. bool_byte (bool_of_lane (lane i self :: 32 word))) [0..<batch_size T]
      else map (\<lambda>i. bool_byte (bool_of_lane (lane i self :: 64 word))) [0..<batch_size T])"

text \<open>
  \<open>batch_bool<T, A>::load_aligned(bool const* mem)\<close>: \<open>mem\<close> holds at least \<open>size\<close>
  elements; the loop fills \<open>buffer[i] = mem[i] ? 1 : 0\<close>, and the result is
  \<open>ref != batch_type::load_aligned(buffer)\<close> with \<open>ref\<close> the batch of zeros.
\<close>

definition batch_bool_load_aligned :: "int_type \<Rightarrow> 8 word list \<Rightarrow> m256i" where
  "batch_bool_load_aligned T mem =
     (let ref = broadcast T (0 :: cint);
          buffer = map (\<lambda>i. if mem ! i \<noteq> 0 then 1 else 0 :: size_t) [0..<batch_size T]
      in neq T ref (batch_set T buffer))"

text \<open>\<open>batch_bool<T, A>::get(i)\<close>: store to a buffer, then read \<open>buffer[i]\<close>.\<close>

definition batch_bool_get :: "int_type \<Rightarrow> m256i \<Rightarrow> nat \<Rightarrow> bool" where
  "batch_bool_get T self i = (batch_bool_store_aligned T self ! i \<noteq> 0)"

section \<open>Gather addressing (xsimd\_avx2.hpp)\<close>

text \<open>
  \<open>detail::select_scale<required_scale, head, tail...>::scale\<close>: the first scale of the
  pack that divides \<open>required_scale\<close>, the last one when none does.
\<close>

fun select_scale :: "size_t \<Rightarrow> size_t \<Rightarrow> size_t list \<Rightarrow> size_t" where
  "select_scale required_scale head [] = head"
| "select_scale required_scale head (t # tail) =
     (if required_scale mod head = 0 then head else select_scale required_scale t tail)"

text \<open>
  \<open>detail::prescaler<required_scale, scales...>\<close>: its two constants, or \<open>None\<close> where the
  \<open>static_assert\<close> stops the compilation.
\<close>

record prescaler_consts =
  scale :: size_t
  prescale :: size_t

definition prescaler :: "size_t \<Rightarrow> size_t \<Rightarrow> size_t list \<Rightarrow> prescaler_consts option" where
  "prescaler required_scale head tail =
     (let sc = select_scale required_scale head tail;
          pre = required_scale div sc
      in if required_scale mod sc = 0 then Some \<lparr>scale = sc, prescale = pre\<rparr> else None)"

text \<open>
  \<open>prescaler::run(T const& offset)\<close> on an offset batch of element type \<open>OT\<close>: the product
  \<open>prescale * offset\<close> converts \<open>prescale\<close> to a batch and calls \<open>kernel::mul\<close>.
\<close>

definition prescaler_run :: "int_type \<Rightarrow> prescaler_consts \<Rightarrow> m256i \<Rightarrow> m256i" where
  "prescaler_run OT p offset =
     (if prescale p = 1 then offset else mul OT (broadcast OT (prescale p)) offset)"

text \<open>
  \<open>kernel::gather<scale>(mem, offset, requires_arch<avx2>)\<close>, up to the call of
  \<open>detail::gather_impl<prescale::scale>\<close>: the result is the hardware scale and the offset
  register handed to the native gather instruction.
\<close>

definition gather_args :: "size_t \<Rightarrow> int_type \<Rightarrow> m256i \<Rightarrow> (size_t \<times> m256i) option" where
  "gather_args required_scale OT offset =
     (case prescaler required_scale 8 [4, 2, 1] of
        None \<Rightarrow> None
      | Some p \<Rightarrow> Some (scale p, prescaler_run OT p offset))"

text \<open>
  The invariant of a \<open>batch_bool<T, A>\<close> in the specification: every lane of the width of
  \<open>T\<close> is all zeros or all ones.
\<close>

definition valid_batch_bool :: "int_type \<Rightarrow> m256i \<Rightarrow> bool" where
  "valid_batch_bool T self =
     (if sizeof T = 1 then list_all valid_lane (lanes self :: 8 word list)
      else if sizeof T = 2 then list_all valid_lane (lanes self :: 16 word list)
      else if sizeof T = 4 then list_all valid_lane (lanes self :: 32 word list)
      else list_all valid_lane (lanes self :: 64 word list))"

section \<open>Properties of the mask packer\<close>

lemma mask_helper_bit:
  "bit (mask_helper acc ms) n \<longleftrightarrow> bit acc n \<or> (\<exists>j < length ms. bit (push_bit j (ms ! j)) n)"
proof (induction acc ms rule: mask_helper.induct)
  case (1 acc)
  show ?case by simp
next
  case (2 acc msk masks)
  have "(\<exists>j < length (msk # masks). bit (push_bit j ((msk # masks) ! j)) n)
      \<longleftrightarrow> bit msk n \<or> (\<exists>j < length masks. bit (push_bit (Suc j) (masks ! j)) n)"
    by (simp add: Ex_less_Suc2)
  moreover have "push_bit j (push_bit 1 m) = push_bit (Suc j) m" for j and m :: cint
    by (simp add: push_bit_push_bit)
  ultimately show ?case
    using 2 by (auto simp add: bit_or_iff)
qed

lemma get_at_index_nth: "i \<le> length t \<Longrightarrow> get_at_index i h t = (h # t) ! i"
  by (induction i h t rule: get_at_index.induct) (auto simp add: nth_Cons')

lemma bbc_get_nth: "i < length vs \<Longrightarrow> bbc_get vs i = vs ! i"
  by (cases vs) (simp_all add: bbc_get_def get_at_index_nth)

lemma bbc_mask_bit: "bit (bbc_mask vs) n \<longleftrightarrow> n < 32 \<and> n < length vs \<and> vs ! n"
proof -
  have "bit (push_bit j (static_cast_int v)) n \<longleftrightarrow> n < 32 \<and> j = n \<and> v" for j v
    by (auto simp add: static_cast_int_def bit_push_bit_iff bit_1_iff)
  then show ?thesis
    by (auto simp add: bbc_mask_def mask_helper_bit)
qed

lemma mask_sum_horner: "mask_sum vs = horner_sum of_bool 2 vs"
proof -
  have "mask_sum vs = (\<Sum>i = 0..<length vs. if vs ! i then 2 ^ i else 0)"
    by (simp add: mask_sum_def interv_sum_list_conv_sum_set_nat)
  also have "\<dots> = (\<Sum>i = 0..<length vs. of_bool (vs ! i) * 2 ^ i)"
    by (rule sum.cong) simp_all
  finally show ?thesis
    by (simp add: horner_sum_eq_sum)
qed

lemma uint_bbc_mask:
  assumes "length vs \<le> 32"
  shows "uint (bbc_mask vs) = mask_sum vs"
proof (rule bit_eqI)
  fix n
  show "bit (uint (bbc_mask vs)) n \<longleftrightarrow> bit (mask_sum vs) n"
    using assms by (auto simp add: bit_uint_iff bbc_mask_bit mask_sum_horner bit_horner_sum_bit_iff)
qed

lemma sint_eq_uint_cint:
  fixes w :: cint
  assumes "uint w < 2 ^ 31"
  shows "sint w = uint w"
proof -
  have "- (2 ^ 31) \<le> uint w"
    by (rule order_trans [of _ 0]) simp_all
  then have "signed_take_bit 31 (uint w) = uint w"
    using assms by (rule signed_take_bit_int_eq_self)
  then show ?thesis
    by (simp add: sint_uint)
qed

text \<open>
  C1. With at most 32 lanes (the width of \<open>int\<close>), bit \<open>i\<close> of \<open>mask()\<close> is \<open>get(i)\<close> for every
  lane \<open>i\<close>, the bit pattern of \<open>mask()\<close> read as an unsigned number is the sum of \<open>2 ^ i\<close>
  over the true lanes, and the \<open>int\<close> that \<open>mask()\<close> returns is that sum whenever the sum fits
  an \<open>int\<close>, that is, is below \<open>2 ^ 31\<close>.
\<close>

theorem bbc_mask_packs_lanes:
  assumes "length vs \<le> 32"
  shows "(\<forall>i < length vs. bit (bbc_mask vs) i = bbc_get vs i)
       \<and> uint (bbc_mask vs) = mask_sum vs
       \<and> (mask_sum vs < 2 ^ 31 \<longrightarrow> sint (bbc_mask vs) = mask_sum vs)"
proof (intro conjI allI impI)
  fix i assume "i < length vs"
  with assms show "bit (bbc_mask vs) i = bbc_get vs i"
    by (simp add: bbc_mask_bit bbc_get_nth)
next
  show "uint (bbc_mask vs) = mask_sum vs"
    using assms by (rule uint_bbc_mask)
next
  assume "mask_sum vs < 2 ^ 31"
  then have "uint (bbc_mask vs) < 2 ^ 31"
    using assms by (simp add: uint_bbc_mask)
  then have "sint (bbc_mask vs) = uint (bbc_mask vs)"
    by (rule sint_eq_uint_cint)
  then show "sint (bbc_mask vs) = mask_sum vs"
    using assms by (simp add: uint_bbc_mask)
qed

theorem bbc_mask_packs_lanes_witness:
  "length [True, False, True, True] \<le> 32
   \<and> bit (bbc_mask [True, False, True, True]) 2 = bbc_get [True, False, True, True] 2
   \<and> bbc_get [True, False, True, True] 2
   \<and> bit (bbc_mask [True, False, True, True]) 1 = bbc_get [True, False, True, True] 1
   \<and> \<not> bbc_get [True, False, True, True] 1
   \<and> uint (bbc_mask [True, False, True, True]) = 13
   \<and> sint (bbc_mask [True, False, True, True]) = 13"
proof -
  have len: "length [True, False, True, True] \<le> 32" by simp
  have s: "mask_sum [True, False, True, True] = 13" by (simp add: mask_sum_def upt_rec)
  have g: "bbc_get [True, False, True, True] 2" "\<not> bbc_get [True, False, True, True] 1"
    by (simp_all add: bbc_get_def)
  show ?thesis
    using bbc_mask_packs_lanes [OF len] g by (simp add: s)
qed

text \<open>
  C1 as stated fails at the 32 lanes of a 1-byte batch when lane 31 is true: the sum is
  \<open>2 ^ 32 - 1\<close>, and \<open>mask()\<close>, an \<open>int\<close>, is \<open>-1\<close>.
\<close>

theorem bbc_mask_sum_counterexample:
  "sint (bbc_mask (replicate 32 True)) \<noteq> mask_sum (replicate 32 True)"
proof -
  have "sint (bbc_mask (replicate 32 True)) = -1"
    by code_simp
  moreover have "mask_sum (replicate 32 True) = 4294967295"
    by code_simp
  ultimately show ?thesis
    by simp
qed

section \<open>Properties of the complex product\<close>

text \<open>
  C8. For complex batches with real and imaginary parts \<open>(a, b)\<close> and \<open>(c, d)\<close> of the same
  number of lanes, the product has real part \<open>a * c - b * d\<close> and imaginary part
  \<open>a * d + b * c\<close> in every lane; and \<open>(real = [1, 2], imag = [3, 4])\<close> times
  \<open>(real = [5, 6], imag = [7, 8])\<close> is \<open>(real = [-16, -20], imag = [22, 40])\<close>.
\<close>

theorem complex_mul_lanes:
  "(\<forall>(a :: 'a::{plus,minus,times} list) b c d i.
      length b = length a \<and> length c = length a \<and> length d = length a \<and> i < length a \<longrightarrow>
      m_real (complex_mul_assign \<lparr>m_real = a, m_imag = b\<rparr> \<lparr>m_real = c, m_imag = d\<rparr>) ! i
        = a ! i * c ! i - b ! i * d ! i
      \<and> m_imag (complex_mul_assign \<lparr>m_real = a, m_imag = b\<rparr> \<lparr>m_real = c, m_imag = d\<rparr>) ! i
        = a ! i * d ! i + b ! i * c ! i)
   \<and> complex_mul_assign \<lparr>m_real = [1, 2 :: real], m_imag = [3, 4]\<rparr>
                           \<lparr>m_real = [5, 6], m_imag = [7, 8]\<rparr>
       = \<lparr>m_real = [-16, -20], m_imag = [22, 40]\<rparr>"
  by (simp add: complex_mul_assign_def real_mul_def real_sub_def real_add_def)

theorem complex_mul_lanes_witness:
  "m_real (complex_mul_assign \<lparr>m_real = [1, 2 :: int], m_imag = [3, 4]\<rparr>
                              \<lparr>m_real = [5, 6], m_imag = [7, 8]\<rparr>) ! 1 = - 20
   \<and> m_imag (complex_mul_assign \<lparr>m_real = [1, 2 :: int], m_imag = [3, 4]\<rparr>
                                \<lparr>m_real = [5, 6], m_imag = [7, 8]\<rparr>) ! 1 = 40"
  using complex_mul_lanes [where ?'a = int, THEN conjunct1, rule_format,
      of "[3, 4]" "[1, 2]" "[5, 6]" "[7, 8]" 1]
  by simp

section \<open>Properties of the lane-list constructors\<close>

text \<open>
  C5, evaluated on the code. A lane list of nine values given to a type of eight lanes:
  the \<open>batch\<close> constructor stops at its assertion, the \<open>batch_bool\<close> constructor returns
  the first eight values and reports nothing.
\<close>

theorem batch_bool_init_no_assertion:
  "batch_init 8 (il_of_list [0, 1, 2, 3, 4, 5, 6, 7, 8 :: int]) = Inl AssertionFailed
   \<and> batch_bool_init 8 (il_of_list [True, False, True, False, True, False, True, False, True])
       = Inr [True, False, True, False, True, False, True, False]"
  by (simp add: batch_init_def batch_bool_init_def from_pointer_def il_of_list_def upt_rec)

section \<open>Lanes of a register\<close>

lemma bit_lane:
  "bit (lane i r :: 'a::len word) n \<longleftrightarrow> n < LENGTH('a) \<and> bit (r :: 'r::len word) (i * LENGTH('a) + n)"
  by (auto simp add: lane_def bit_ucast_iff bit_drop_bit_eq ac_simps)

lemma bit_of_lanes:
  "bit (of_lanes (xs :: 'a::len word list) :: 'r::len word) n \<longleftrightarrow>
     n < LENGTH('r) \<and> n div LENGTH('a) < length xs \<and> bit (xs ! (n div LENGTH('a))) (n mod LENGTH('a))"
proof (induction xs arbitrary: n)
  case Nil
  show ?case by simp
next
  case (Cons x xs)
  show ?case
  proof (cases "n < LENGTH('a)")
    case True
    then show ?thesis
      by (auto simp add: bit_or_iff bit_ucast_iff bit_push_bit_iff dest: bit_imp_le_length)
  next
    case False
    then have "n div LENGTH('a) = Suc ((n - LENGTH('a)) div LENGTH('a))"
      and "n mod LENGTH('a) = (n - LENGTH('a)) mod LENGTH('a)"
      by (simp_all add: le_div_geq le_mod_geq)
    with False show ?thesis
      by (auto simp add: bit_or_iff bit_ucast_iff bit_push_bit_iff Cons.IH dest: bit_imp_le_length)
  qed
qed

lemma lane_of_lanes:
  assumes "i < length xs" and "Suc i * LENGTH('a) \<le> LENGTH('r)"
  shows "lane i (of_lanes (xs :: 'a::len word list) :: 'r::len word) = xs ! i"
proof (rule bit_word_eqI)
  fix n assume "n < LENGTH('a)"
  moreover from this assms have "i * LENGTH('a) + n < LENGTH('r)"
    by simp
  ultimately show "bit (lane i (of_lanes xs :: 'r word) :: 'a word) n \<longleftrightarrow> bit (xs ! i) n"
    using assms by (simp add: bit_lane bit_of_lanes)
qed

lemma length_lanes: "length (lanes (r :: 'r::len word) :: 'a::len word list) = LENGTH('r) div LENGTH('a)"
  by (simp add: lanes_def)

lemma nth_lanes:
  "i < LENGTH('r) div LENGTH('a) \<Longrightarrow> (lanes (r :: 'r::len word) :: 'a::len word list) ! i = lane i r"
  by (simp add: lanes_def)

lemma of_lanes_lanes:
  assumes "LENGTH('a) dvd LENGTH('r)"
  shows "of_lanes (lanes (r :: 'r::len word) :: 'a::len word list) = r"
proof (rule bit_word_eqI)
  fix n assume n: "n < LENGTH('r)"
  from assms obtain k where k: "LENGTH('r) = LENGTH('a) * k" ..
  with n have "n div LENGTH('a) < LENGTH('r) div LENGTH('a)"
    by (simp add: less_mult_imp_div_less mult.commute)
  with n show "bit (of_lanes (lanes r :: 'a word list) :: 'r word) n \<longleftrightarrow> bit r n"
    by (simp add: bit_of_lanes length_lanes nth_lanes bit_lane ac_simps)
qed

lemma lanes_of_lanes:
  assumes "length xs * LENGTH('a) = LENGTH('r)"
  shows "lanes (of_lanes (xs :: 'a::len word list) :: 'r::len word) = xs"
proof -
  have len: "LENGTH('r) div LENGTH('a) = length xs"
    unfolding assms [symmetric] by simp
  show ?thesis
  proof (rule nth_equalityI)
    show "length (lanes (of_lanes xs :: 'r word) :: 'a word list) = length xs"
      by (simp only: length_lanes len)
  next
    fix i assume "i < length (lanes (of_lanes xs :: 'r word) :: 'a word list)"
    then have i: "i < length xs"
      by (simp only: length_lanes len)
    then have "Suc i \<le> length xs"
      by simp
    then have "Suc i * LENGTH('a) \<le> length xs * LENGTH('a)"
      by (rule mult_le_mono1)
    then have le: "Suc i * LENGTH('a) \<le> LENGTH('r)"
      by (simp only: assms)
    have "(lanes (of_lanes xs :: 'r word) :: 'a word list) ! i = lane i (of_lanes xs :: 'r word)"
      using i by (simp only: nth_lanes len)
    also have "\<dots> = xs ! i"
      using i le by (rule lane_of_lanes)
    finally show "(lanes (of_lanes xs :: 'r word) :: 'a word list) ! i = xs ! i" .
  qed
qed

lemma lane_lanewise:
  assumes "Suc i * LENGTH('a) \<le> LENGTH('r)"
  shows "lane i (lanewise f (a :: 'r::len word)) = f (lane i a :: 'a::len word)"
proof -
  from assms have "i < LENGTH('r) div LENGTH('a)"
    by (metis div_le_mono div_mult_self_is_m len_gt_0 less_eq_Suc_le mult.commute nonzero_mult_div_cancel_right)
  then show ?thesis
    using assms by (simp add: lanewise_def lane_of_lanes length_lanes nth_lanes)
qed

lemma lane_lanewise2:
  assumes "Suc i * LENGTH('a) \<le> LENGTH('r)"
  shows "lane i (lanewise2 f (a :: 'r::len word) b) = f (lane i a :: 'a::len word) (lane i b)"
proof -
  from assms have "i < LENGTH('r) div LENGTH('a)"
    by (metis div_le_mono div_mult_self_is_m len_gt_0 less_eq_Suc_le mult.commute nonzero_mult_div_cancel_right)
  then show ?thesis
    using assms by (simp add: lanewise2_def lane_of_lanes length_lanes nth_lanes)
qed

section \<open>Properties of the 8-byte multiply\<close>

lemma unat_32_mod_64: "unat (x :: 32 word) mod 18446744073709551616 = unat x"
proof -
  have "unat x < 2 ^ 32" using unsigned_less [of x] by simp
  then show ?thesis by simp
qed

lemma ucast_up_mult:
  "(ucast (x * y :: 32 word) :: 64 word) = take_bit 32 (ucast x * ucast y)"
  apply (rule word_unat_eq_iff[THEN iffD2])
  apply (simp add: unsigned_ucast_eq unat_word_ariths unsigned_take_bit_eq take_bit_eq_mod mod_mod_cancel unat_32_mod_64)
  done

lemma ucast_up_add:
  "(ucast (x + y :: 32 word) :: 64 word) = take_bit 32 (ucast x + ucast y)"
  apply (rule word_unat_eq_iff[THEN iffD2])
  apply (simp add: unsigned_ucast_eq unat_word_ariths unsigned_take_bit_eq take_bit_eq_mod mod_mod_cancel unat_32_mod_64)
  done

lemma push_take_32: "push_bit 32 (take_bit 32 (x :: 64 word)) = push_bit 32 x"
  by (rule bit_word_eqI) (auto simp add: bit_push_bit_iff bit_take_bit_iff)

lemma mul64_split:
  fixes a b :: "64 word"
  shows "a * b = ucast (ucast a :: 32 word) * ucast (ucast b :: 32 word)
     + word_cat ((ucast a :: 32 word) * ucast (drop_bit 32 b) + ucast (drop_bit 32 a) * ucast b :: 32 word) (0 :: 32 word)"
proof -
  define aL aH bL bH :: "64 word" where "aL = take_bit 32 a" and "aH = drop_bit 32 a" and "bL = take_bit 32 b" and "bH = drop_bit 32 b"
  have a: "a = aL + push_bit 32 aH" and b: "b = bL + push_bit 32 bH"
    unfolding aL_def aH_def bL_def bH_def
    by (metis bits_ident add.commute)+
  have u1: "(ucast (ucast a :: 32 word) :: 64 word) = aL" "(ucast (ucast b :: 32 word) :: 64 word) = bL"
    "(ucast (ucast (drop_bit 32 a) :: 32 word) :: 64 word) = take_bit 32 aH" "(ucast (ucast (drop_bit 32 b) :: 32 word) :: 64 word) = take_bit 32 bH"
    unfolding aL_def bL_def aH_def bH_def by (rule bit_word_eqI; auto simp add: bit_ucast_iff bit_take_bit_iff bit_drop_bit_eq)+
  have cat: "(word_cat (s :: 32 word) (0 :: 32 word) :: 64 word) = push_bit 32 (ucast s)" for s
    by (rule bit_word_eqI) (auto simp add: bit_word_cat_iff bit_push_bit_iff bit_ucast_iff)
  have k: "push_bit 32 (take_bit 32 x * y) = push_bit 32 (x * y)" for x y :: "64 word"
  proof -
    have "push_bit 32 (take_bit 32 x * y) = push_bit 32 (take_bit 32 x) * y"
      by (simp add: push_bit_eq_mult mult.commute mult.left_commute)
    also have "\<dots> = push_bit 32 x * y"
      by (simp only: push_take_32)
    also have "\<dots> = push_bit 32 (x * y)"
      by (simp add: push_bit_eq_mult mult.commute mult.left_commute)
    finally show ?thesis .
  qed
  have s1: "push_bit 32 (ucast ((ucast a :: 32 word) * ucast (drop_bit 32 b) + ucast (drop_bit 32 a) * ucast b :: 32 word) :: 64 word)
     = push_bit 32 (aL * take_bit 32 bH) + push_bit 32 (take_bit 32 aH * bL)"
    by (simp only: ucast_up_add ucast_up_mult u1 push_take_32 push_bit_add)
  have s: "push_bit 32 (ucast ((ucast a :: 32 word) * ucast (drop_bit 32 b) + ucast (drop_bit 32 a) * ucast b :: 32 word) :: 64 word)
     = push_bit 32 (aL * bH) + push_bit 32 (aH * bL)"
    unfolding s1 using k [of aH bL] k [of bH aL] by (simp add: mult.commute)
  have z: "push_bit 32 (push_bit 32 (x :: 64 word)) = 0" for x
    by (rule bit_word_eqI) (auto simp add: bit_push_bit_iff)
  have e: "(aL + push_bit 32 aH) * (bL + push_bit 32 bH)
      = aL * bL + (push_bit 32 (aL * bH) + push_bit 32 (aH * bL)) + push_bit 32 (push_bit 32 (aH * bH))"
    by (simp add: push_bit_eq_mult algebra_simps)
  show ?thesis
    apply (simp only: u1 cat s)
    apply (subst a, subst b)
    apply (simp only: e z)
    apply simp
    done
qed

lemma lane64_cat:
  "(lane k (r :: m256i) :: 64 word) = word_cat (lane (2 * k + 1) r :: 32 word) (lane (2 * k) r :: 32 word)"
proof (rule bit_word_eqI)
  fix n assume n: "n < LENGTH(64)"
  have a: "2 * k * 32 + n = k * 64 + n" by simp
  have b: "(2 * k + 1) * 32 + (n - 32) = k * 64 + n" if "\<not> n < 32" using that by simp
  show "bit (lane k r :: 64 word) n \<longleftrightarrow>
        bit (word_cat (lane (2 * k + 1) r :: 32 word) (lane (2 * k) r :: 32 word) :: 64 word) n"
    using n by (auto simp add: bit_lane bit_word_cat_iff mult.commute [of k 64])
qed

lemma lane64_low: "(ucast (lane k (r :: m256i) :: 64 word) :: 32 word) = lane (2 * k) r"
proof (rule bit_word_eqI)
  fix n assume n: "n < LENGTH(32)"
  have a: "2 * k * 32 + n = k * 64 + n" by simp
  show "bit (ucast (lane k r :: 64 word) :: 32 word) n \<longleftrightarrow> bit (lane (2 * k) r :: 32 word) n"
    using n by (auto simp add: bit_lane bit_ucast_iff mult.commute [of k 64])
qed

lemma lane64_high: "(ucast (drop_bit 32 (lane k (r :: m256i) :: 64 word)) :: 32 word) = lane (2 * k + 1) r"
proof (rule bit_word_eqI)
  fix n assume n: "n < LENGTH(32)"
  have b: "32 + 64 * k + n = 64 * k + (32 + n)" by simp
  show "bit (ucast (drop_bit 32 (lane k r :: 64 word)) :: 32 word) n \<longleftrightarrow> bit (lane (2 * k + 1) r :: 32 word) n"
    using n by (auto simp add: bit_lane bit_ucast_iff bit_drop_bit_eq mult.commute [of k 64] b)
qed

lemma lane_shuffle_epi32:
  "j < 8 \<Longrightarrow> (lane j (mm256_shuffle_epi32 a imm8) :: 32 word)
      = lane (4 * (j div 4) + (imm8 div 4 ^ (j mod 4)) mod 4) a"
  by (simp add: mm256_shuffle_epi32_def lane_of_lanes)

lemma lane_hadd_epi32:
  "j < 8 \<Longrightarrow> (lane j (mm256_hadd_epi32 a b) :: 32 word)
      = [lane 0 a + lane 1 a, lane 2 a + lane 3 a, lane 0 b + lane 1 b, lane 2 b + lane 3 b,
         lane 4 a + lane 5 a, lane 6 a + lane 7 a, lane 4 b + lane 5 b, lane 6 b + lane 7 b] ! j"
  unfolding mm256_hadd_epi32_def by (rule lane_of_lanes) simp_all

lemma lane_mul_epu32:
  "k < 4 \<Longrightarrow> (lane k (mm256_mul_epu32 a b) :: 64 word)
      = ucast (lane (2 * k) a :: 32 word) * ucast (lane (2 * k) b :: 32 word)"
  by (simp add: mm256_mul_epu32_def lane_of_lanes)

lemma lane_zero: "lane j (0 :: 'r::len word) = 0"
  by (simp add: lane_def)

lemma less_4_cases: "k < 4 \<Longrightarrow> k = 0 \<or> k = 1 \<or> k = 2 \<or> k = (3::nat)"
  by arith

lemma mul_8_lane:
  assumes "sizeof T = 8" and "k < 4"
  shows "(lane k (mul T x y) :: 64 word) = lane k x * lane k y"
proof -
  let ?hi = "mm256_shuffle_epi32
      (mm256_hadd_epi32 (mm256_mullo_epi32 x (mm256_shuffle_epi32 y 0xB1)) mm256_setzero_si256) 0x73"
  have lo: "(lane (2 * k) ?hi :: 32 word) = 0"
    using less_4_cases [OF assms(2)]
    by (auto simp add: lane_shuffle_epi32 lane_hadd_epi32 mm256_setzero_si256_def lane_zero
        simp flip: numeral_2_eq_2)
  have hi: "(lane (2 * k + 1) ?hi :: 32 word)
      = lane (2 * k) x * lane (2 * k + 1) y + lane (2 * k + 1) x * lane (2 * k) y"
    using less_4_cases [OF assms(2)]
    by (auto simp add: lane_shuffle_epi32 lane_hadd_epi32 mm256_mullo_epi32_def lane_lanewise2
        simp flip: numeral_2_eq_2)
  have "(lane k (mul T x y) :: 64 word) = lane k (mm256_mul_epu32 x y) + lane k ?hi"
    using assms by (simp add: mul_def Let_def mm256_add_epi64_def lane_lanewise2)
  also have "\<dots> = lane k x * lane k y"
    using assms(2)
    by (simp only: lane_mul_epu32 lane64_cat [of k ?hi] lo hi
        mul64_split [of "lane k x" "lane k y"] lane64_low lane64_high)
  finally show ?thesis .
qed


lemma length_lanes_64: "length (lanes (r :: m256i) :: 64 word list) = 4"
  by (simp add: length_lanes)

lemma mul_8_lanes:
  assumes "sizeof T = 8"
  shows "(lanes (mul T x y) :: 64 word list) = map2 (*) (lanes x) (lanes y)"
proof (rule nth_equalityI)
  show "length (lanes (mul T x y) :: 64 word list) = length (map2 (*) (lanes x :: 64 word list) (lanes y))"
    by (simp add: length_lanes_64)
next
  fix k assume "k < length (lanes (mul T x y) :: 64 word list)"
  then have k: "k < 4"
    by (simp add: length_lanes_64)
  then show "(lanes (mul T x y) :: 64 word list) ! k = map2 (*) (lanes x) (lanes y) ! k"
    using assms by (simp add: nth_lanes length_lanes_64 mul_8_lane)
qed

lemma map_unat_mult:
  "map unat (map2 (*) xs ys) = map2 (\<lambda>a b. unat a * unat b mod 2 ^ 64) xs (ys :: 64 word list)"
  by (induction xs ys rule: list_induct2') (simp_all add: unat_word_ariths)

text \<open>
  C4. For 8-byte elements, signed or unsigned, the avx2 \<open>mul\<close> built from the dword
  shuffle, the 32-bit low multiply, the horizontal add and the 32x32->64 unsigned
  multiply returns in every 64-bit lane the product of the two lanes modulo \<open>2 ^ 64\<close>.
\<close>

theorem mul_int64_low_64_bits:
  "(lanes (mul Int64 x y) :: 64 word list) = map2 (*) (lanes x) (lanes y)
   \<and> (lanes (mul UInt64 x y) :: 64 word list) = map2 (*) (lanes x) (lanes y)
   \<and> map unat (lanes (mul UInt64 x y) :: 64 word list)
       = map2 (\<lambda>a b. unat a * unat b mod 2 ^ 64) (lanes x :: 64 word list) (lanes y :: 64 word list)"
proof (intro conjI)
  show "(lanes (mul Int64 x y) :: 64 word list) = map2 (*) (lanes x) (lanes y)"
    by (rule mul_8_lanes) simp
  show u: "(lanes (mul UInt64 x y) :: 64 word list) = map2 (*) (lanes x) (lanes y)"
    by (rule mul_8_lanes) simp
  show "map unat (lanes (mul UInt64 x y) :: 64 word list)
       = map2 (\<lambda>a b. unat a * unat b mod 2 ^ 64) (lanes x :: 64 word list) (lanes y :: 64 word list)"
    unfolding u by (rule map_unat_mult)
qed

theorem mul_int64_low_64_bits_witness:
  "(lanes (mul Int64 (of_lanes [0x8000000000000005, 3, 0x100000001, 0xFFFFFFFFFFFFFFFF :: 64 word])
                     (of_lanes [2, 7, 0x100000001, 0xFFFFFFFFFFFFFFFF :: 64 word])) :: 64 word list)
   = [10, 21, 0x200000001, 1]"
proof -
  have l: "lanes (of_lanes [a, b, c, d :: 64 word] :: m256i) = [a, b, c, d]" for a b c d
    by (rule lanes_of_lanes) simp
  have p: "map2 (*) [0x8000000000000005, 3, 0x100000001, 0xFFFFFFFFFFFFFFFF :: 64 word]
                    [2, 7, 0x100000001, 0xFFFFFFFFFFFFFFFF] = [10, 21, 0x200000001, 1]"
    by simp
  show ?thesis
    using mul_int64_low_64_bits
      [of "of_lanes [0x8000000000000005, 3, 0x100000001, 0xFFFFFFFFFFFFFFFF :: 64 word]"
          "of_lanes [2, 7, 0x100000001, 0xFFFFFFFFFFFFFFFF :: 64 word]", THEN conjunct1]
    by (simp only: l p)
qed

section \<open>Properties of the gather prescaler\<close>

lemma lanes_lanewise:
  assumes "LENGTH('a) dvd LENGTH('r)"
  shows "(lanes (lanewise f (a :: 'r::len word)) :: 'a::len word list) = map f (lanes a)"
proof -
  have "length (map f (lanes a :: 'a word list)) * LENGTH('a) = LENGTH('r)"
    using assms by (simp add: length_lanes)
  then show ?thesis
    unfolding lanewise_def by (rule lanes_of_lanes)
qed

lemma lanes_lanewise2:
  assumes "LENGTH('a) dvd LENGTH('r)"
  shows "(lanes (lanewise2 f (a :: 'r::len word) b) :: 'a::len word list) = map2 f (lanes a) (lanes b)"
proof -
  have "length (map2 f (lanes a :: 'a word list) (lanes b)) * LENGTH('a) = LENGTH('r)"
    using assms by (simp add: length_lanes)
  then show ?thesis
    unfolding lanewise2_def by (rule lanes_of_lanes)
qed

lemma lanes_set1:
  assumes "LENGTH('a) dvd 256"
  shows "(lanes (set1 (v :: 'a::len word)) :: 'a word list) = replicate (256 div LENGTH('a)) v"
proof -
  have "length (replicate (256 div LENGTH('a)) v) * LENGTH('a) = LENGTH(256)"
    using assms by simp
  then show ?thesis
    unfolding set1_def by (rule lanes_of_lanes)
qed

lemma mul_4_lanes:
  assumes "sizeof T = 4"
  shows "(lanes (mul T x y) :: 32 word list) = map2 (*) (lanes x) (lanes y)"
  using assms by (simp add: mul_def mm256_mullo_epi32_def lanes_lanewise2)

lemma mul_2_lanes:
  assumes "sizeof T = 2"
  shows "(lanes (mul T x y) :: 16 word list) = map2 (*) (lanes x) (lanes y)"
  using assms by (simp add: mul_def mm256_mullo_epi16_def lanes_lanewise2)

lemma mul_1_lanes:
  assumes "sizeof T = 1"
  shows "(lanes (mul T x y) :: 8 word list) = map2 (*) (lanes x) (lanes y)"
  using assms by (simp add: mul_def avx_mul_def lanes_lanewise2)

lemma ucast_down_mult:
  assumes "LENGTH('b) \<le> LENGTH('a)"
  shows "(ucast (x * y :: 'a::len word) :: 'b::len word) = ucast x * ucast y"
proof (rule word_unat_eq_iff [THEN iffD2])
  have d: "(2::nat) ^ LENGTH('b) dvd 2 ^ LENGTH('a)"
    using assms by (rule le_imp_power_dvd)
  have "unat (ucast (x * y) :: 'b word) = (unat x * unat y mod 2 ^ LENGTH('a)) mod 2 ^ LENGTH('b)"
    by (simp add: unsigned_ucast_eq unat_word_ariths take_bit_eq_mod)
  also have "\<dots> = unat x * unat y mod 2 ^ LENGTH('b)"
    using d by (rule mod_mod_cancel)
  also have "\<dots> = (unat x mod 2 ^ LENGTH('b)) * (unat y mod 2 ^ LENGTH('b)) mod 2 ^ LENGTH('b)"
    by (simp add: mod_mult_eq)
  also have "\<dots> = unat (ucast x * ucast y :: 'b word)"
    by (simp add: unsigned_ucast_eq unat_word_ariths take_bit_eq_mod)
  finally show "unat (ucast (x * y) :: 'b word) = unat (ucast x * ucast y :: 'b word)" .
qed


lemma select_scale_8421:
  "select_scale s 8 [4, 2, 1] =
     (if s mod 8 = 0 then 8 else if s mod 4 = 0 then 4 else if s mod 2 = 0 then 2 else 1)"
  by simp

lemma select_scale_divides: "s mod select_scale s 8 [4, 2, 1] = 0"
  by simp

lemma word_mod_0_iff_dvd: "(s :: size_t) mod h = 0 \<longleftrightarrow> unat h dvd unat s"
proof -
  have "s mod h = 0 \<longleftrightarrow> unat (s mod h) = 0"
    by (simp add: unsigned_eq_0_iff)
  then show ?thesis
    by (simp add: unat_mod_distrib mod_eq_0_iff_dvd)
qed

lemma unat_select_scale:
  "unat (select_scale s 8 [4, 2, 1]) =
     (if 8 dvd unat s then 8 else if 4 dvd unat s then 4 else if 2 dvd unat s then 2 else 1)"
proof -
  have "s mod 8 = 0 \<longleftrightarrow> 8 dvd unat s" "s mod 4 = 0 \<longleftrightarrow> 4 dvd unat s"
    "s mod 2 = 0 \<longleftrightarrow> 2 dvd unat s"
    using word_mod_0_iff_dvd [of s 8] word_mod_0_iff_dvd [of s 4] word_mod_0_iff_dvd [of s 2]
    by simp_all
  then show ?thesis
    by (simp only: select_scale_8421 if_distrib [of unat] split: if_splits) simp
qed

lemma select_scale_largest:
  assumes "h \<in> {8, 4, 2, 1 :: size_t}" and "unat h dvd unat s"
  shows "unat h \<le> unat (select_scale s 8 [4, 2, 1])"
  using assms unfolding unat_select_scale by auto

lemma select_scale_recompose:
  "select_scale s 8 [4, 2, 1] * (s div select_scale s 8 [4, 2, 1]) = s"
  using mult_div_mod_eq [of "select_scale s 8 [4, 2, 1]" s]
  by (simp only: select_scale_divides add_0_right)

lemma prescaler_8421:
  "prescaler s 8 [4, 2, 1]
     = Some \<lparr>scale = select_scale s 8 [4, 2, 1], prescale = s div select_scale s 8 [4, 2, 1]\<rparr>"
  unfolding prescaler_def Let_def by (simp only: select_scale_divides if_True refl)

lemma map2_replicate_left:
  "length xs = n \<Longrightarrow> map2 f (replicate n c) xs = map (f c) xs"
  by (induction xs arbitrary: n) auto

lemma prescaler_run_4_lanes:
  assumes "sizeof OT = 4"
  shows "map (\<lambda>x. ucast (scale p) * x) (lanes (prescaler_run OT p offset) :: 32 word list)
       = map (\<lambda>x. ucast (scale p * prescale p) * x) (lanes offset)"
proof (cases "prescale p = 1")
  case True
  then show ?thesis by (simp add: prescaler_run_def)
next
  case False
  have "(lanes (broadcast OT (prescale p)) :: 32 word list) = replicate 8 (ucast (prescale p))"
    using assms by (simp add: broadcast_def lanes_set1)
  then have "(lanes (prescaler_run OT p offset) :: 32 word list)
      = map ((*) (ucast (prescale p))) (lanes offset)"
    using False assms
    by (simp add: prescaler_run_def mul_4_lanes map2_replicate_left length_lanes)
  then show ?thesis
    by (simp add: ucast_down_mult mult.assoc)
qed

lemma prescaler_run_8_lanes:
  assumes "sizeof OT = 8"
  shows "map (\<lambda>x. ucast (scale p) * x) (lanes (prescaler_run OT p offset) :: 64 word list)
       = map (\<lambda>x. ucast (scale p * prescale p) * x) (lanes offset)"
proof (cases "prescale p = 1")
  case True
  then show ?thesis by (simp add: prescaler_run_def)
next
  case False
  have "(lanes (broadcast OT (prescale p)) :: 64 word list) = replicate 4 (ucast (prescale p))"
    using assms by (simp add: broadcast_def lanes_set1)
  then have "(lanes (prescaler_run OT p offset) :: 64 word list)
      = map ((*) (ucast (prescale p))) (lanes offset)"
    using False assms
    by (simp add: prescaler_run_def mul_8_lanes map2_replicate_left length_lanes)
  then show ?thesis
    by (simp add: mult.assoc)
qed


lemma select_scale_legal: "select_scale s 8 [4, 2, 1] \<in> {8, 4, 2, 1}"
  by simp

lemma gather_args_8421:
  "gather_args s OT offset =
     Some (select_scale s 8 [4, 2, 1],
           prescaler_run OT \<lparr>scale = select_scale s 8 [4, 2, 1],
                                 prescale = s div select_scale s 8 [4, 2, 1]\<rparr> offset)"
  unfolding gather_args_def prescaler_8421 by simp

lemma map_mult_1: "map ((*) (1 :: 'a::len word)) xs = xs"
  by (induction xs) simp_all

lemma prescaler_run_factor_4:
  assumes "sizeof OT = 4"
  shows "(lanes (prescaler_run OT p offset) :: 32 word list) = map ((*) (ucast (prescale p))) (lanes offset)"
proof (cases "prescale p = 1")
  case True
  then show ?thesis by (simp add: prescaler_run_def map_mult_1)
next
  case False
  have "(lanes (broadcast OT (prescale p)) :: 32 word list) = replicate 8 (ucast (prescale p))"
    using assms by (simp add: broadcast_def lanes_set1)
  then show ?thesis
    using False assms
    by (simp add: prescaler_run_def mul_4_lanes map2_replicate_left length_lanes)
qed

lemma prescaler_run_factor_8:
  assumes "sizeof OT = 8"
  shows "(lanes (prescaler_run OT p offset) :: 64 word list) = map ((*) (ucast (prescale p))) (lanes offset)"
proof (cases "prescale p = 1")
  case True
  then show ?thesis by (simp add: prescaler_run_def map_mult_1)
next
  case False
  have "(lanes (broadcast OT (prescale p)) :: 64 word list) = replicate 4 (ucast (prescale p))"
    using assms by (simp add: broadcast_def lanes_set1)
  then show ?thesis
    using False assms
    by (simp add: prescaler_run_def mul_8_lanes map2_replicate_left length_lanes)
qed

text \<open>
  C2. For every compile-time scale \<open>s\<close> and every offset register, with 4-byte and with
  8-byte offsets: the hardware scale of the avx2 gather is an element of \<open>{8, 4, 2, 1}\<close>, it
  divides \<open>s\<close>, and no element of that set dividing \<open>s\<close> is larger; the \<open>static_assert\<close>
  holds; the offsets handed to the native gather are the offsets multiplied lane-wise by
  \<open>s\<close> divided by the hardware scale, and the very same register when that factor is 1;
  and in every lane the hardware scale times the adjusted offset equals \<open>s\<close> times the
  offset, modulo \<open>2 ^ 32\<close> respectively \<open>2 ^ 64\<close>.
\<close>

theorem gather_prescale:
  fixes s :: size_t and offset :: m256i
  shows
  "(let hw = select_scale s 8 [4, 2, 1];
        factor = s div hw;
        adj32 = prescaler_run Int32 \<lparr>scale = hw, prescale = factor\<rparr> offset;
        adj64 = prescaler_run Int64 \<lparr>scale = hw, prescale = factor\<rparr> offset
    in hw \<in> {8, 4, 2, 1} \<and> unat hw dvd unat s
     \<and> (\<forall>h \<in> {8, 4, 2, 1 :: size_t}. unat h dvd unat s \<longrightarrow> unat h \<le> unat hw)
     \<and> gather_args s Int32 offset = Some (hw, adj32)
     \<and> gather_args s Int64 offset = Some (hw, adj64)
     \<and> (factor = 1 \<longrightarrow> adj32 = offset \<and> adj64 = offset)
     \<and> (lanes adj32 :: 32 word list) = map (\<lambda>x. ucast factor * x) (lanes offset)
     \<and> (lanes adj64 :: 64 word list) = map (\<lambda>x. ucast factor * x) (lanes offset)
     \<and> map (\<lambda>x. ucast hw * x) (lanes adj32 :: 32 word list) = map (\<lambda>x. ucast s * x) (lanes offset)
     \<and> map (\<lambda>x. ucast hw * x) (lanes adj64 :: 64 word list) = map (\<lambda>x. ucast s * x) (lanes offset))"
proof -
  let ?hw = "select_scale s 8 [4, 2, 1]"
  let ?p = "\<lparr>scale = ?hw, prescale = s div ?hw\<rparr>"
  have s4: "sizeof Int32 = 4" and s8: "sizeof Int64 = 8"
    by simp_all
  have 1: "?hw \<in> {8, 4, 2, 1}"
    by (rule select_scale_legal)
  have 2: "unat ?hw dvd unat s"
    using select_scale_divides [of s] by (simp only: word_mod_0_iff_dvd)
  have 3: "\<forall>h \<in> {8, 4, 2, 1 :: size_t}. unat h dvd unat s \<longrightarrow> unat h \<le> unat ?hw"
    using select_scale_largest [of _ s] by blast
  have 4: "gather_args s Int32 offset = Some (?hw, prescaler_run Int32 ?p offset)"
    "gather_args s Int64 offset = Some (?hw, prescaler_run Int64 ?p offset)"
    by (rule gather_args_8421)+
  have 5: "s div ?hw = 1 \<longrightarrow> prescaler_run Int32 ?p offset = offset \<and> prescaler_run Int64 ?p offset = offset"
    by (simp add: prescaler_run_def)
  have 6: "(lanes (prescaler_run Int32 ?p offset) :: 32 word list) = map (\<lambda>x. ucast (s div ?hw) * x) (lanes offset)"
    using prescaler_run_factor_4 [OF s4, of ?p offset]
    by (simp only: prescaler_consts.select_convs)
  have 7: "(lanes (prescaler_run Int64 ?p offset) :: 64 word list) = map (\<lambda>x. ucast (s div ?hw) * x) (lanes offset)"
    using prescaler_run_factor_8 [OF s8, of ?p offset]
    by (simp only: prescaler_consts.select_convs)
  have 8: "map (\<lambda>x. ucast ?hw * x) (lanes (prescaler_run Int32 ?p offset) :: 32 word list)
      = map (\<lambda>x. ucast s * x) (lanes offset)"
    using prescaler_run_4_lanes [OF s4, of ?p offset]
    by (simp only: prescaler_consts.select_convs select_scale_recompose)
  have 9: "map (\<lambda>x. ucast ?hw * x) (lanes (prescaler_run Int64 ?p offset) :: 64 word list)
      = map (\<lambda>x. ucast s * x) (lanes offset)"
    using prescaler_run_8_lanes [OF s8, of ?p offset]
    by (simp only: prescaler_consts.select_convs select_scale_recompose)
  show ?thesis
    unfolding Let_def by (intro conjI 1 2 3 4 5 6 7 8 9)
qed

theorem gather_prescale_witness:
  "select_scale 12 8 [4, 2, 1] = 4 \<and> 12 div select_scale 12 8 [4, 2, 1] = 3
   \<and> (lanes (prescaler_run Int32 \<lparr>scale = 4, prescale = 3\<rparr>
               (of_lanes [0, 1, 2, 3, 4, 5, 6, 7 :: 32 word])) :: 32 word list)
       = [0, 3, 6, 9, 12, 15, 18, 21]
   \<and> gather_args 12 Int32 (of_lanes [0, 1, 2, 3, 4, 5, 6, 7 :: 32 word])
       = Some (4, prescaler_run Int32 \<lparr>scale = 4, prescale = 3\<rparr>
                    (of_lanes [0, 1, 2, 3, 4, 5, 6, 7 :: 32 word]))"
proof -
  have a: "select_scale 12 8 [4, 2, 1] = 4" by simp
  have b: "(12 :: size_t) div 4 = 3" by simp
  have l: "lanes (of_lanes [0, 1, 2, 3, 4, 5, 6, 7 :: 32 word] :: m256i) = [0, 1, 2, 3, 4, 5, 6, 7 :: 32 word]"
    by (rule lanes_of_lanes) simp
  show ?thesis
    using gather_prescale [of 12 "of_lanes [0, 1, 2, 3, 4, 5, 6, 7 :: 32 word]"]
    unfolding Let_def a b l by (simp del: of_lanes.simps)
qed

section \<open>Properties of the right shift\<close>

lemma lane_or: "lane i (a OR b) = lane i a OR lane i b"
  by (rule bit_word_eqI) (auto simp add: bit_lane bit_or_iff)

lemma lane_and: "lane i (a AND b) = lane i a AND lane i b"
  by (rule bit_word_eqI) (auto simp add: bit_lane bit_and_iff)

lemma lane_not:
  assumes "Suc i * LENGTH('a) \<le> LENGTH('r)"
  shows "(lane i (NOT (a :: 'r::len word)) :: 'a::len word) = NOT (lane i a)"
proof (rule bit_word_eqI)
  fix n assume n: "n < LENGTH('a)"
  with assms have "i * LENGTH('a) + n < LENGTH('r)"
    by simp
  with n show "bit (lane i (NOT a) :: 'a word) n \<longleftrightarrow> bit (NOT (lane i a :: 'a word)) n"
    by (simp add: bit_lane bit_not_iff)
qed

lemma fwd_to_sse_and: "fwd_to_sse sse_bitwise_and a b = a AND b"
  by (rule bit_word_eqI)
     (auto simp add: fwd_to_sse_def sse_bitwise_and_def bit_word_cat_iff bit_and_iff bit_ucast_iff bit_drop_bit_eq)

lemma lane8_low: "(lane (2 * j) (r :: m256i) :: 8 word) = ucast (lane j r :: 16 word)"
proof (rule bit_word_eqI)
  fix n assume n: "n < LENGTH(8)"
  show "bit (lane (2 * j) r :: 8 word) n \<longleftrightarrow> bit (ucast (lane j r :: 16 word) :: 8 word) n"
    using n by (auto simp add: bit_lane bit_ucast_iff mult.commute [of j 16])
qed

lemma lane8_high: "(lane (2 * j + 1) (r :: m256i) :: 8 word) = ucast (drop_bit 8 (lane j r :: 16 word))"
proof (rule bit_word_eqI)
  fix n assume n: "n < LENGTH(8)"
  have a: "8 + 16 * j + n = 16 * j + (8 + n)" by simp
  show "bit (lane (2 * j + 1) r :: 8 word) n \<longleftrightarrow> bit (ucast (drop_bit 8 (lane j r :: 16 word)) :: 8 word) n"
    using n by (auto simp add: bit_lane bit_ucast_iff bit_drop_bit_eq mult.commute [of j 16] a)
qed

lemma lane16_cat:
  "(lane j (r :: m256i) :: 16 word) = word_cat (lane (2 * j + 1) r :: 8 word) (lane (2 * j) r :: 8 word)"
proof (rule bit_word_eqI)
  fix n assume n: "n < LENGTH(16)"
  have a: "8 + 16 * j + (n - 8) = 16 * j + n" if "\<not> n < 8" using that by simp
  show "bit (lane j r :: 16 word) n \<longleftrightarrow>
        bit (word_cat (lane (2 * j + 1) r :: 8 word) (lane (2 * j) r :: 8 word) :: 16 word) n"
    using n by (auto simp add: bit_lane bit_word_cat_iff mult.commute [of j 16] a)
qed

lemma bit_FF00: "bit (0xFF00 :: cint) m \<longleftrightarrow> 8 \<le> m \<and> m < 16"
proof -
  have e: "(0xFF00 :: cint) = push_bit 8 (mask 8)"
    by (simp add: mask_eq_exp_minus_1)
  show ?thesis
    by (simp only: e bit_push_bit_iff bit_mask_iff) auto
qed

lemma bit_00FF: "bit (0x00FF :: cint) m \<longleftrightarrow> m < 8"
proof -
  have e: "(0x00FF :: cint) = mask 8"
    by (simp add: mask_eq_exp_minus_1)
  show ?thesis
    by (simp only: e bit_mask_iff) auto
qed

lemma bit_sign_mask_int:
  "bit (drop_bit k (0xFF00 :: cint) AND 0x00FF) n \<longleftrightarrow> n < 8 \<and> 8 \<le> k + n \<and> k + n < 16"
  by (simp only: bit_and_iff bit_drop_bit_eq o_apply bit_FF00 bit_00FF) auto

lemma bit_sign_mask:
  assumes "k < 8"
  shows "bit (ucast (ucast (drop_bit k (0xFF00 :: cint) AND 0x00FF) :: 16 word) :: 8 word) n
     \<longleftrightarrow> n < 8 \<and> 8 \<le> n + k"
  using assms by (simp only: bit_ucast_iff bit_sign_mask_int) auto

lemma sign_mask_high:
  "(ucast (drop_bit 8 (ucast (drop_bit k (0xFF00 :: cint) AND 0x00FF) :: 16 word)) :: 8 word) = 0"
proof (rule bit_word_eqI)
  fix n
  show "bit (ucast (drop_bit 8 (ucast (drop_bit k (0xFF00 :: cint) AND 0x00FF) :: 16 word)) :: 8 word) n
      \<longleftrightarrow> bit (0 :: 8 word) n"
    by (simp only: bit_ucast_iff bit_drop_bit_eq o_apply bit_sign_mask_int) auto
qed

lemma sint_neg_iff_bit7: "sint (x :: 8 word) < 0 \<longleftrightarrow> bit x 7"
  using bit_last_iff [of x] by simp

lemma srai16_high_byte:
  fixes hi lo :: "8 word"
  assumes k: "k < 8"
  shows "(ucast (drop_bit 8 (signed_drop_bit k (word_cat hi lo :: 16 word))) :: 8 word) = signed_drop_bit k hi"
proof (rule bit_word_eqI)
  fix n assume "n < LENGTH(8)"
  then have n: "n < 8" by simp
  have c: "16 - k \<le> 8 + n \<longleftrightarrow> 8 - k \<le> n"
    using k n by arith
  have d: "k + (8 + n) - 8 = k + n" "8 + n + k - 8 = n + k"
    by simp_all
  show "bit (ucast (drop_bit 8 (signed_drop_bit k (word_cat hi lo :: 16 word))) :: 8 word) n
      \<longleftrightarrow> bit (signed_drop_bit k hi) n"
    using n k
    by (auto simp add: bit_ucast_iff bit_drop_bit_eq bit_signed_drop_bit_iff bit_word_cat_iff c d)
qed

lemma srai16_low_byte:
  fixes hi lo m :: "8 word"
  assumes k: "k < 8" and m: "\<And>n. bit m n \<longleftrightarrow> n < 8 \<and> 8 \<le> n + k"
  shows "(m AND (if sint (0 :: 8 word) > sint lo then - 1 else 0))
         OR (NOT m AND ucast (signed_drop_bit k (word_cat hi lo :: 16 word))) = signed_drop_bit k lo"
proof (rule bit_word_eqI)
  fix n assume "n < LENGTH(8)"
  then have n: "n < 8" by simp
  have c: "\<not> 16 - k \<le> n" "8 - k \<le> n \<longleftrightarrow> 8 \<le> n + k"
    using k n by arith+
  have w: "bit (signed_drop_bit k (word_cat hi lo :: 16 word)) n
      \<longleftrightarrow> (if n + k < 8 then bit lo (n + k) else bit hi (n + k - 8))"
    using n k c(1) by (simp add: bit_signed_drop_bit_iff bit_word_cat_iff add.commute [of k n])
  have r: "bit (signed_drop_bit k lo) n \<longleftrightarrow> (if 8 \<le> n + k then bit lo 7 else bit lo (n + k))"
    using n k c(2) by (simp add: bit_signed_drop_bit_iff add.commute [of k n])
  show "bit ((m AND (if sint (0 :: 8 word) > sint lo then - 1 else 0))
         OR (NOT m AND ucast (signed_drop_bit k (word_cat hi lo :: 16 word)))) n
      \<longleftrightarrow> bit (signed_drop_bit k lo) n"
    using n by (auto simp add: bit_or_iff bit_and_iff bit_not_iff bit_ucast_iff m w r sint_neg_iff_bit7)
qed


lemma count8_small: "unat k < 256 \<Longrightarrow> count8 k = unat k"
  by (simp add: count8_def unsigned_take_bit_eq take_bit_nat_eq_self)

lemma lane_set1_epi16: "j < 16 \<Longrightarrow> (lane j (mm256_set1_epi16 v) :: 16 word) = ucast v"
  unfolding mm256_set1_epi16_def by (subst lane_of_lanes) simp_all

lemma lane_srai_epi16:
  assumes "j < 16" and "unat k < 16"
  shows "(lane j (mm256_srai_epi16 a k) :: 16 word) = signed_drop_bit (unat k) (lane j a)"
  using assms by (simp add: mm256_srai_epi16_def lane_lanewise count8_small)

lemma lane_cmpgt_epi8_zero:
  assumes "i < 32"
  shows "(lane i (mm256_cmpgt_epi8 mm256_setzero_si256 a) :: 8 word)
      = (if sint (0 :: 8 word) > sint (lane i a :: 8 word) then - 1 else 0)"
  using assms by (simp add: mm256_cmpgt_epi8_def lane_lanewise2 mm256_setzero_si256_def lane_zero)

lemma rshift_int8_body:
  "bitwise_rshift Int8 x k =
     (mm256_set1_epi16 (drop_bit (unat k) 0xFF00 AND 0x00FF) AND mm256_cmpgt_epi8 mm256_setzero_si256 x)
     OR (NOT (mm256_set1_epi16 (drop_bit (unat k) 0xFF00 AND 0x00FF)) AND mm256_srai_epi16 x k)"
  by (simp add: bitwise_rshift_def Let_def mm256_or_si256_def mm256_andnot_si256_def fwd_to_sse_and)

lemma rshift_int8_even_lane:
  assumes j: "j < 16" and k: "unat k < 8"
  shows "(lane (2 * j) (bitwise_rshift Int8 x k) :: 8 word) = signed_drop_bit (unat k) (lane (2 * j) x)"
proof -
  let ?m = "ucast (ucast (drop_bit (unat k) (0xFF00 :: cint) AND 0x00FF) :: 16 word) :: 8 word"
  let ?sm = "mm256_set1_epi16 (drop_bit (unat k) 0xFF00 AND 0x00FF)"
  from j have i: "2 * j < 32" "Suc (2 * j) * LENGTH(8) \<le> LENGTH(256)"
    by simp_all
  from k have k16: "unat k < 16"
    by simp
  have sm: "(lane (2 * j) ?sm :: 8 word) = ?m"
    using j by (simp only: lane8_low [of j ?sm] lane_set1_epi16)
  have res: "(lane (2 * j) (mm256_srai_epi16 x k) :: 8 word)
      = ucast (signed_drop_bit (unat k) (word_cat (lane (2 * j + 1) x :: 8 word) (lane (2 * j) x :: 8 word) :: 16 word))"
  proof -
    have "(lane (2 * j) (mm256_srai_epi16 x k) :: 8 word) = ucast (lane j (mm256_srai_epi16 x k) :: 16 word)"
      by (rule lane8_low)
    also have "\<dots> = ucast (signed_drop_bit (unat k) (lane j x :: 16 word))"
      using j k16 by (simp only: lane_srai_epi16)
    finally show ?thesis
      by (simp only: lane16_cat [of j x, symmetric])
  qed
  have "(lane (2 * j) (bitwise_rshift Int8 x k) :: 8 word)
      = (?m AND (if sint (0 :: 8 word) > sint (lane (2 * j) x :: 8 word) then - 1 else 0))
        OR (NOT ?m AND ucast (signed_drop_bit (unat k)
              (word_cat (lane (2 * j + 1) x :: 8 word) (lane (2 * j) x :: 8 word) :: 16 word)))"
    by (simp only: rshift_int8_body lane_or lane_and lane_not [OF i(2)] sm res
        lane_cmpgt_epi8_zero [OF i(1)])
  also have "\<dots> = signed_drop_bit (unat k) (lane (2 * j) x)"
    using k bit_sign_mask [OF k] by (rule srai16_low_byte)
  finally show ?thesis .
qed

lemma rshift_int8_odd_lane:
  assumes j: "j < 16" and k: "unat k < 8"
  shows "(lane (2 * j + 1) (bitwise_rshift Int8 x k) :: 8 word) = signed_drop_bit (unat k) (lane (2 * j + 1) x)"
proof -
  let ?sm = "mm256_set1_epi16 (drop_bit (unat k) 0xFF00 AND 0x00FF)"
  from j have i: "2 * j + 1 < 32" "Suc (2 * j + 1) * LENGTH(8) \<le> LENGTH(256)"
    by simp_all
  from k have k16: "unat k < 16"
    by simp
  have sm: "(lane (2 * j + 1) ?sm :: 8 word) = 0"
    using j by (simp only: lane8_high [of j ?sm] lane_set1_epi16 sign_mask_high)
  have res: "(lane (2 * j + 1) (mm256_srai_epi16 x k) :: 8 word)
      = signed_drop_bit (unat k) (lane (2 * j + 1) x)"
  proof -
    have "(lane (2 * j + 1) (mm256_srai_epi16 x k) :: 8 word)
        = ucast (drop_bit 8 (lane j (mm256_srai_epi16 x k) :: 16 word))"
      by (rule lane8_high)
    also have "\<dots> = ucast (drop_bit 8 (signed_drop_bit (unat k) (lane j x :: 16 word)))"
      using j k16 by (simp only: lane_srai_epi16)
    also have "\<dots> = ucast (drop_bit 8 (signed_drop_bit (unat k)
          (word_cat (lane (2 * j + 1) x :: 8 word) (lane (2 * j) x :: 8 word) :: 16 word)))"
      by (simp only: lane16_cat [of j x, symmetric])
    also have "\<dots> = signed_drop_bit (unat k) (lane (2 * j + 1) x)"
      using k by (rule srai16_high_byte)
    finally show ?thesis .
  qed
  have "(lane (2 * j + 1) (bitwise_rshift Int8 x k) :: 8 word)
      = (0 AND (if sint (0 :: 8 word) > sint (lane (2 * j + 1) x :: 8 word) then - 1 else 0))
        OR (NOT 0 AND signed_drop_bit (unat k) (lane (2 * j + 1) x))"
    by (simp only: rshift_int8_body lane_or lane_and lane_not [OF i(2)] sm res
        lane_cmpgt_epi8_zero [OF i(1)])
  then show ?thesis
    by simp
qed

lemma rshift_int8_lane:
  assumes "i < 32" and "unat k < 8"
  shows "(lane i (bitwise_rshift Int8 x k) :: 8 word) = signed_drop_bit (unat k) (lane i x)"
proof (cases "even i")
  case True
  then obtain j where "i = 2 * j" ..
  with assms rshift_int8_even_lane [of j k x] show ?thesis
    by simp
next
  case False
  then obtain j where "i = 2 * j + 1" by (auto elim: oddE)
  with assms rshift_int8_odd_lane [of j k x] show ?thesis
    by simp
qed


lemma unat_nonneg_cint:
  fixes k :: cint
  assumes "0 \<le> sint k"
  shows "unat k = nat (sint k)"
proof -
  from assms have nb: "\<not> bit k 31"
    using bit_last_iff [of k] by simp
  have "take_bit 32 (uint k) = 2 ^ 31 * of_bool (bit (uint k) 31) + take_bit 31 (uint k)"
    using take_bit_Suc_from_most [of 31 "uint k"] by simp
  moreover have "take_bit 32 (uint k) = uint k"
    by (simp add: take_bit_int_eq_self uint_bounded [where ?'a = 32, simplified])
  ultimately have "uint k = take_bit 31 (uint k)"
    using nb by (simp add: bit_uint_iff)
  then have "uint k < 2 ^ 31"
    by (metis take_bit_int_less_exp)
  then have "sint k = uint k"
    by (rule sint_eq_uint_cint)
  then show ?thesis
    by simp
qed

lemma map_sint_signed_drop_bit:
  "map sint (map (signed_drop_bit n) xs) = map (\<lambda>v. sint v div 2 ^ n) xs"
  by (simp add: sint_signed_drop_bit_eq drop_bit_eq_div)

lemma map_unat_drop_bit:
  "map unat (map (drop_bit n) xs) = map (\<lambda>v. unat v div 2 ^ n) xs"
proof -
  have "unat (drop_bit n v) = unat v div 2 ^ n" for v :: "'a word"
    by (simp only: unat_drop_bit_eq) (simp only: drop_bit_eq_div)
  then show ?thesis
    by simp
qed

lemma length_lanes_8: "length (lanes (r :: m256i) :: 8 word list) = 32"
  by (simp add: length_lanes)

lemma rshift_int8_lanes:
  assumes "unat k < 8"
  shows "(lanes (bitwise_rshift Int8 x k) :: 8 word list) = map (signed_drop_bit (unat k)) (lanes x)"
proof (rule nth_equalityI)
  show "length (lanes (bitwise_rshift Int8 x k) :: 8 word list)
      = length (map (signed_drop_bit (unat k)) (lanes x :: 8 word list))"
    by (simp add: length_lanes_8)
next
  fix i assume "i < length (lanes (bitwise_rshift Int8 x k) :: 8 word list)"
  then have "i < 32"
    by (simp add: length_lanes_8)
  then show "(lanes (bitwise_rshift Int8 x k) :: 8 word list) ! i
      = map (signed_drop_bit (unat k)) (lanes x) ! i"
    using assms by (simp add: nth_lanes length_lanes_8 rshift_int8_lane)
qed

lemma rshift_int16_lanes:
  assumes "unat k < 16"
  shows "(lanes (bitwise_rshift Int16 x k) :: 16 word list) = map (signed_drop_bit (unat k)) (lanes x)"
  using assms by (simp add: bitwise_rshift_def mm256_srai_epi16_def lanes_lanewise count8_small)

lemma rshift_int32_lanes:
  assumes "unat k < 32"
  shows "(lanes (bitwise_rshift Int32 x k) :: 32 word list) = map (signed_drop_bit (unat k)) (lanes x)"
  using assms by (simp add: bitwise_rshift_def mm256_srai_epi32_def lanes_lanewise count8_small)

lemma rshift_int64_lanes:
  "(lanes (bitwise_rshift Int64 x k) :: 64 word list) = map (signed_drop_bit (unat k)) (lanes x)"
  by (simp add: bitwise_rshift_def avx_bitwise_rshift_def lanes_lanewise)

lemma rshift_uint8_lanes:
  "(lanes (bitwise_rshift UInt8 x k) :: 8 word list) = map (drop_bit (unat k)) (lanes x)"
  by (simp add: bitwise_rshift_def avx_bitwise_rshift_def lanes_lanewise)

lemma rshift_uint16_lanes:
  assumes "unat k < 16"
  shows "(lanes (bitwise_rshift UInt16 x k) :: 16 word list) = map (drop_bit (unat k)) (lanes x)"
  using assms by (simp add: bitwise_rshift_def mm256_srli_epi16_def lanes_lanewise count8_small)

lemma rshift_uint32_lanes:
  assumes "unat k < 32"
  shows "(lanes (bitwise_rshift UInt32 x k) :: 32 word list) = map (drop_bit (unat k)) (lanes x)"
  using assms by (simp add: bitwise_rshift_def mm256_srli_epi32_def lanes_lanewise count8_small)

lemma rshift_uint64_lanes:
  assumes "unat k < 64"
  shows "(lanes (bitwise_rshift UInt64 x k) :: 64 word list) = map (drop_bit (unat k)) (lanes x)"
  using assms by (simp add: bitwise_rshift_def mm256_srli_epi64_def lanes_lanewise count8_small)

lemma lanes_of_8_dwords:
  "lanes (of_lanes [a, b, c, d, e, f, g, h :: 32 word] :: m256i) = [a, b, c, d, e, f, g, h]"
  by (rule lanes_of_lanes) simp

lemma rshift_scenario_positive:
  "(lanes (batch_rshift_assign Int32 (of_lanes [0, 1, 2, 3, 4, 5, 6, 7 :: 32 word]) 1) :: 32 word list)
     = [0, 0, 1, 1, 2, 2, 3, 3]"
proof -
  have "unat (1 :: cint) < 32" by simp
  then have "(lanes (bitwise_rshift Int32 (of_lanes [0, 1, 2, 3, 4, 5, 6, 7 :: 32 word]) 1) :: 32 word list)
      = map (signed_drop_bit (unat (1 :: cint))) [0, 1, 2, 3, 4, 5, 6, 7]"
    by (simp only: rshift_int32_lanes lanes_of_8_dwords)
  also have "\<dots> = [0, 0, 1, 1, 2, 2, 3, 3]"
    by simp
  finally show ?thesis
    by (simp only: batch_rshift_assign_def)
qed

lemma rshift_scenario_negative:
  "map sint (lanes (batch_rshift_assign Int32 (of_lanes [0, - 1, - 2, - 3, - 4, - 5, - 6, - 7 :: 32 word]) 1)
       :: 32 word list)
     = [0, - 1, - 1, - 2, - 2, - 3, - 3, - 4]"
proof -
  have "unat (1 :: cint) < 32" by simp
  then have "(lanes (bitwise_rshift Int32 (of_lanes [0, - 1, - 2, - 3, - 4, - 5, - 6, - 7 :: 32 word]) 1) :: 32 word list)
      = map (signed_drop_bit (unat (1 :: cint))) [0, - 1, - 2, - 3, - 4, - 5, - 6, - 7]"
    by (simp only: rshift_int32_lanes lanes_of_8_dwords)
  then have "map sint (lanes (bitwise_rshift Int32 (of_lanes [0, - 1, - 2, - 3, - 4, - 5, - 6, - 7 :: 32 word]) 1) :: 32 word list)
      = map (\<lambda>v. sint v div 2 ^ unat (1 :: cint)) [0, - 1, - 2, - 3, - 4, - 5, - 6, - 7 :: 32 word]"
    by (simp only: map_sint_signed_drop_bit)
  also have "\<dots> = [0, - 1, - 1, - 2, - 2, - 3, - 3, - 4]"
    by simp
  finally show ?thesis
    by (simp only: batch_rshift_assign_def)
qed


section \<open>Properties of select\<close>

lemma bit_blendv_epi8:
  "bit (mm256_blendv_epi8 a b m) p \<longleftrightarrow>
     p < 256 \<and> (if bit m (8 * (p div 8) + 7) then bit b p else bit a p)"
proof (cases "p < 256")
  case False
  then show ?thesis
    by (auto dest: bit_imp_le_length)
next
  case True
  then have d: "p div 8 < 32"
    by simp
  have e: "p div 8 * 8 + p mod 8 = p"
    by simp
  have m: "p mod 8 < 8"
    by simp
  show ?thesis
    unfolding mm256_blendv_epi8_def
    using True d m by (simp add: bit_of_lanes bit_lane e mult.commute [of 8])
qed

lemma lane_blendv_epi8:
  fixes a b c :: m256i
  assumes dvd: "8 dvd LENGTH('a)" and i: "Suc i * LENGTH('a) \<le> 256"
    and v: "valid_lane (lane i c :: 'a::len word)"
  shows "(lane i (mm256_blendv_epi8 a b c) :: 'a word)
     = (if bool_of_lane (lane i c :: 'a word) then lane i b else lane i a)"
proof (rule bit_word_eqI)
  fix n assume n: "n < LENGTH('a)"
  from dvd obtain q where q: "LENGTH('a) = 8 * q" ..
  from n i have p: "i * LENGTH('a) + n < 256"
    by simp
  have "(i * LENGTH('a) + n) div 8 = i * q + n div 8"
    by (simp add: q)
  then have idx: "8 * ((i * LENGTH('a) + n) div 8) + 7 = i * LENGTH('a) + (8 * (n div 8) + 7)"
    by (simp add: q algebra_simps)
  have "n div 8 < q"
    using n by (simp add: q less_mult_imp_div_less mult.commute)
  then have "Suc (n div 8) \<le> q"
    by simp
  then have "8 * Suc (n div 8) \<le> 8 * q"
    by (rule mult_le_mono2)
  then have r: "8 * (n div 8) + 7 < LENGTH('a)"
    by (simp add: q)
  have sel: "bit c (i * LENGTH('a) + (8 * (n div 8) + 7)) \<longleftrightarrow> bool_of_lane (lane i c :: 'a word)"
  proof -
    have "bit c (i * LENGTH('a) + (8 * (n div 8) + 7)) \<longleftrightarrow> bit (lane i c :: 'a word) (8 * (n div 8) + 7)"
      using r by (simp add: bit_lane)
    also have "\<dots> \<longleftrightarrow> bool_of_lane (lane i c :: 'a word)"
      using v r by (auto simp add: valid_lane_def bool_of_lane_def)
    finally show ?thesis .
  qed
  show "bit (lane i (mm256_blendv_epi8 a b c) :: 'a word) n
      \<longleftrightarrow> bit (if bool_of_lane (lane i c :: 'a word) then lane i b else lane i a :: 'a word) n"
    using n p by (simp add: bit_lane bit_blendv_epi8 idx sel)
qed

lemma select_lane:
  fixes a b c :: m256i
  assumes "8 * sizeof T = LENGTH('a)" and "Suc i * LENGTH('a) \<le> 256"
    and "valid_lane (lane i c :: 'a::len word)"
  shows "(lane i (select T c a b) :: 'a word)
     = (if bool_of_lane (lane i c :: 'a word) then lane i a else lane i b)"
proof -
  have "8 dvd LENGTH('a)"
    using assms(1) [symmetric] by simp
  moreover have "select T c a b = mm256_blendv_epi8 b a c"
    by (cases T) (simp_all add: select_def)
  ultimately show ?thesis
    using assms(2,3) by (simp only: lane_blendv_epi8)
qed


lemma lane_blend_epi32:
  "j < 8 \<Longrightarrow> (lane j (mm256_blend_epi32 a b imm) :: 32 word) = (if bit imm j then lane j b else lane j a)"
  unfolding mm256_blend_epi32_def by (subst lane_of_lanes) simp_all

lemma bool_of_lane_pattern: "bool_of_lane (bool_pattern v :: 'a::len word) = v"
  by (simp add: bool_of_lane_def bool_pattern_def)

lemma valid_lane_pattern: "valid_lane (bool_pattern v :: 'a::len word)"
  by (simp add: valid_lane_def bool_pattern_def)

lemma lane_batch_bool_set_8:
  assumes "sizeof T = 1" and "i < length vs" and "i < 32"
  shows "(lane i (batch_bool_set T vs) :: 8 word) = bool_pattern (vs ! i)"
  using assms unfolding batch_bool_set_def by (simp add: lane_of_lanes)

lemma lane_batch_bool_set_16:
  assumes "sizeof T = 2" and "i < length vs" and "i < 16"
  shows "(lane i (batch_bool_set T vs) :: 16 word) = bool_pattern (vs ! i)"
  using assms unfolding batch_bool_set_def by (simp add: lane_of_lanes)

lemma select_constant_1_lane:
  assumes T: "sizeof T = 1" and len: "length vs = 32" and i: "i < 32"
  shows "(lane i (select_constant il T vs a b) :: 8 word) = (if bbc_get vs i then lane i a else lane i b)"
proof -
  have c: "(lane i (batch_bool_set T vs) :: 8 word) = bool_pattern (vs ! i)"
    using T len i by (simp add: lane_batch_bool_set_8)
  have "(lane i (select T (batch_bool_set T vs) a b) :: 8 word)
      = (if bool_of_lane (lane i (batch_bool_set T vs) :: 8 word) then lane i a else lane i b)"
    using T i by (intro select_lane) (simp_all add: c valid_lane_pattern)
  then show ?thesis
    using T len i by (simp add: select_constant_def c bool_of_lane_pattern bbc_get_nth)
qed

lemma select_constant_2_lane:
  assumes T: "sizeof T = 2" and len: "length vs = 16" and i: "i < 16"
  shows "(lane i (select_constant il T vs a b) :: 16 word) = (if bbc_get vs i then lane i a else lane i b)"
proof -
  have c: "(lane i (batch_bool_set T vs) :: 16 word) = bool_pattern (vs ! i)"
    using T len i by (simp add: lane_batch_bool_set_16)
  have "(lane i (select T (batch_bool_set T vs) a b) :: 16 word)
      = (if bool_of_lane (lane i (batch_bool_set T vs) :: 16 word) then lane i a else lane i b)"
    using T i by (intro select_lane) (simp_all add: c valid_lane_pattern)
  then show ?thesis
    using T len i by (simp add: select_constant_def c bool_of_lane_pattern bbc_get_nth)
qed

lemma select_constant_4_lane:
  assumes T: "sizeof T = 4" and len: "length vs = 8" and i: "i < 8"
  shows "(lane i (select_constant il T vs a b) :: 32 word) = (if bbc_get vs i then lane i a else lane i b)"
  using assms by (simp add: select_constant_def lane_blend_epi32 bbc_mask_bit bbc_get_nth)

lemma select_constant_8_lane:
  assumes T: "sizeof T = 8" and len: "length vs = 4" and k: "k < 4"
    and il: "\<And>m n. n < 4 \<Longrightarrow> bit (il m) (2 * n) = bit m n \<and> bit (il m) (2 * n + 1) = bit m n"
  shows "(lane k (select_constant il T vs a b) :: 64 word) = (if bbc_get vs k then lane k a else lane k b)"
proof -
  let ?r = "mm256_blend_epi32 b a (il (bbc_mask vs))"
  have r: "select_constant il T vs a b = ?r"
    using T by (simp add: select_constant_def)
  have m: "bit (bbc_mask vs) k = bbc_get vs k"
    using len k by (simp add: bbc_mask_bit bbc_get_nth)
  from k have j: "2 * k < 8" "2 * k + 1 < 8"
    by simp_all
  have lo: "(lane (2 * k) ?r :: 32 word) = (if bbc_get vs k then lane (2 * k) a else lane (2 * k) b)"
    using il [OF k, of "bbc_mask vs"] j(1) by (simp only: lane_blend_epi32 m)
  have hi: "(lane (2 * k + 1) ?r :: 32 word) = (if bbc_get vs k then lane (2 * k + 1) a else lane (2 * k + 1) b)"
    using il [OF k, of "bbc_mask vs"] j(2) by (simp only: lane_blend_epi32 m)
  have "(lane k ?r :: 64 word) = word_cat (lane (2 * k + 1) ?r :: 32 word) (lane (2 * k) ?r :: 32 word)"
    by (rule lane64_cat)
  also have "\<dots> = (if bbc_get vs k then lane k a else lane k b)"
    by (simp only: lo hi lane64_cat [of k a] lane64_cat [of k b] if_distrib [of "\<lambda>x. word_cat x _"] split: if_split) simp
  finally show ?thesis
    by (simp only: r)
qed

lemma interleave_bits_doubles:
  "n < 4 \<Longrightarrow> bit (interleave_bits m) (2 * n) = bit m n \<and> bit (interleave_bits m) (2 * n + 1) = bit m n"
  by (simp add: interleave_bits_def bit_horner_sum_bit_iff)


section \<open>Properties of the gather utilities\<close>

lemma ramp_values: "make_batch_constant n ramp_generator_get = map of_nat [0..<n]"
  by (simp add: make_batch_constant_def ramp_generator_get_def)

lemma map2_map_replicate:
  "map2 f (map g [0..<n]) (replicate n c) = map (\<lambda>i. f (g i) c) [0..<n]"
  by (rule nth_equalityI) simp_all

lemma lanes_batch_set_8:
  "sizeof T = 1 \<Longrightarrow> length vs = 32 \<Longrightarrow> (lanes (batch_set T vs) :: 8 word list) = map ucast vs"
  by (simp add: batch_set_def lanes_of_lanes)

lemma lanes_batch_set_16:
  "sizeof T = 2 \<Longrightarrow> length vs = 16 \<Longrightarrow> (lanes (batch_set T vs) :: 16 word list) = map ucast vs"
  by (simp add: batch_set_def lanes_of_lanes)

lemma lanes_batch_set_32:
  "sizeof T = 4 \<Longrightarrow> length vs = 8 \<Longrightarrow> (lanes (batch_set T vs) :: 32 word list) = map ucast vs"
  by (simp add: batch_set_def lanes_of_lanes)

lemma lanes_batch_set_64:
  "sizeof T = 8 \<Longrightarrow> length vs = 4 \<Longrightarrow> (lanes (batch_set T vs) :: 64 word list) = map ucast vs"
  by (simp add: batch_set_def lanes_of_lanes)

lemma lanes_broadcast_8:
  "sizeof T = 1 \<Longrightarrow> (lanes (broadcast T v) :: 8 word list) = replicate 32 (ucast v)"
  by (simp add: broadcast_def lanes_set1)

lemma lanes_broadcast_16:
  "sizeof T = 2 \<Longrightarrow> (lanes (broadcast T v) :: 16 word list) = replicate 16 (ucast v)"
  by (simp add: broadcast_def lanes_set1)

lemma lanes_broadcast_32:
  "sizeof T = 4 \<Longrightarrow> (lanes (broadcast T v) :: 32 word list) = replicate 8 (ucast v)"
  by (simp add: broadcast_def lanes_set1)

lemma lanes_broadcast_64:
  "sizeof T = 8 \<Longrightarrow> (lanes (broadcast T v) :: 64 word list) = replicate 4 (ucast v)"
  by (simp add: broadcast_def lanes_set1)

lemma stride_offset_lanes_generic:
  fixes stride :: size_t
  assumes w: "LENGTH('a::len) \<le> 64"
    and mulL: "\<And>x y. (lanes (mul T x y) :: 'a word list) = map2 (*) (lanes x) (lanes y)"
    and bcL: "(lanes (broadcast T stride) :: 'a word list) = replicate (batch_size T) (ucast stride)"
    and setL: "(lanes (batch_set T (map of_nat [0..<batch_size T] :: size_t list)) :: 'a word list)
        = map ucast (map of_nat [0..<batch_size T] :: size_t list)"
  shows "(lanes (stride_offset_batch T stride) :: 'a word list)
      = map (\<lambda>i. ucast (stride_offset_get stride (of_nat i))) [0..<batch_size T]"
proof -
  have "(lanes (stride_offset_batch T stride) :: 'a word list)
      = map2 (*) (map (\<lambda>i. ucast (of_nat i :: size_t)) [0..<batch_size T])
                 (replicate (batch_size T) (ucast stride))"
    by (simp only: stride_offset_batch_def Let_def ramp_values mulL bcL setL map_map o_def)
  also have "\<dots> = map (\<lambda>i. ucast (of_nat i :: size_t) * ucast stride) [0..<batch_size T]"
    by (rule map2_map_replicate)
  also have "\<dots> = map (\<lambda>i. ucast (stride_offset_get stride (of_nat i))) [0..<batch_size T]"
    using w by (simp add: stride_offset_get_def ucast_down_mult mult.commute)
  finally show ?thesis .
qed

lemma stride_offset_lanes_8:
  assumes "sizeof T = 1"
  shows "(lanes (stride_offset_batch T stride) :: 8 word list)
      = map (\<lambda>i. ucast (stride_offset_get stride (of_nat i))) [0..<batch_size T]"
  using assms
  by (intro stride_offset_lanes_generic)
     (simp_all add: mul_1_lanes lanes_broadcast_8 lanes_batch_set_8 batch_size_def)

lemma stride_offset_lanes_16:
  assumes "sizeof T = 2"
  shows "(lanes (stride_offset_batch T stride) :: 16 word list)
      = map (\<lambda>i. ucast (stride_offset_get stride (of_nat i))) [0..<batch_size T]"
  using assms
  by (intro stride_offset_lanes_generic)
     (simp_all add: mul_2_lanes lanes_broadcast_16 lanes_batch_set_16 batch_size_def)

lemma stride_offset_lanes_32:
  assumes "sizeof T = 4"
  shows "(lanes (stride_offset_batch T stride) :: 32 word list)
      = map (\<lambda>i. ucast (stride_offset_get stride (of_nat i))) [0..<batch_size T]"
  using assms
  by (intro stride_offset_lanes_generic)
     (simp_all add: mul_4_lanes lanes_broadcast_32 lanes_batch_set_32 batch_size_def)

lemma stride_offset_lanes_64:
  assumes "sizeof T = 8"
  shows "(lanes (stride_offset_batch T stride) :: 64 word list)
      = map (\<lambda>i. ucast (stride_offset_get stride (of_nat i))) [0..<batch_size T]"
  using assms
  by (intro stride_offset_lanes_generic)
     (simp_all add: mul_8_lanes lanes_broadcast_64 lanes_batch_set_64 batch_size_def)


lemma sint_eq_uint_small:
  fixes x :: "'a::len word"
  assumes "uint x < 2 ^ (LENGTH('a) - 1)"
  shows "sint x = uint x"
proof -
  have "- (2 ^ (LENGTH('a) - 1)) \<le> uint x"
    by (rule order_trans [of _ 0]) simp_all
  then have "signed_take_bit (LENGTH('a) - 1) (uint x) = uint x"
    using assms by (rule signed_take_bit_int_eq_self)
  then show ?thesis
    by (simp add: sint_uint)
qed

lemma read_lane_mod: "read_lane s (x :: 'a::len word) mod 2 ^ LENGTH('a) = uint x"
proof (cases s)
  case True
  then show ?thesis
    by (simp add: read_lane_def uint_sint take_bit_eq_mod)
next
  case False
  then show ?thesis
    by (simp add: read_lane_def uint_bounded)
qed

lemma uint_ucast_mod: "uint (ucast (g :: 'b::len word) :: 'a::len word) = uint g mod 2 ^ LENGTH('a)"
  by (simp add: unsigned_ucast_eq take_bit_eq_mod)

lemma read_lane_ucast_mod:
  "read_lane s (ucast (g :: 'b::len word) :: 'a::len word) mod 2 ^ LENGTH('a) = uint g mod 2 ^ LENGTH('a)"
  by (simp only: read_lane_mod uint_ucast_mod)

lemma read_lane_ucast_exact:
  assumes "uint (g :: 'b::len word) < 2 ^ (LENGTH('a) - (if s then 1 else 0))"
  shows "read_lane s (ucast g :: 'a::len word) = uint g"
proof -
  have "(2::int) ^ (LENGTH('a) - (if s then 1 else 0)) \<le> 2 ^ LENGTH('a)"
    by (rule power_increasing) simp_all
  with assms have "uint g < 2 ^ LENGTH('a)"
    by (rule less_le_trans)
  then have u: "uint (ucast g :: 'a word) = uint g"
    by (simp add: uint_ucast_mod)
  show ?thesis
  proof (cases s)
    case True
    with assms u have "uint (ucast g :: 'a word) < 2 ^ (LENGTH('a) - 1)"
      by simp
    then have "sint (ucast g :: 'a word) = uint (ucast g :: 'a word)"
      by (rule sint_eq_uint_small)
    with True u show ?thesis
      by (simp add: read_lane_def)
  next
    case False
    with u show ?thesis
      by (simp add: read_lane_def)
  qed
qed

lemma batch_size_cases:
  "(sizeof T = 1 \<and> batch_size T = 32) \<or> (sizeof T = 2 \<and> batch_size T = 16)
   \<or> (sizeof T = 4 \<and> batch_size T = 8) \<or> (sizeof T = 8 \<and> batch_size T = 4)"
  by (cases T) (simp_all add: batch_size_def)

lemma batch_get_8:
  "sizeof T = 1 \<Longrightarrow> batch_get T r i = read_lane (is_signed T) (lane i r :: 8 word)"
  by (simp add: batch_get_def)

lemma stride_offset_lane_8:
  assumes "sizeof T = 1" and "i < 32"
  shows "(lane i (stride_offset_batch T stride) :: 8 word) = ucast (stride_offset_get stride (of_nat i))"
proof -
  have "(lane i (stride_offset_batch T stride) :: 8 word)
      = (lanes (stride_offset_batch T stride) :: 8 word list) ! i"
    using assms(2) by (simp add: nth_lanes)
  also have "\<dots> = ucast (stride_offset_get stride (of_nat i))"
    using assms by (simp add: stride_offset_lanes_8 batch_size_def)
  finally show ?thesis .
qed

lemma batch_get_16:
  "sizeof T = 2 \<Longrightarrow> batch_get T r i = read_lane (is_signed T) (lane i r :: 16 word)"
  by (simp add: batch_get_def)

lemma stride_offset_lane_16:
  assumes "sizeof T = 2" and "i < 16"
  shows "(lane i (stride_offset_batch T stride) :: 16 word) = ucast (stride_offset_get stride (of_nat i))"
proof -
  have "(lane i (stride_offset_batch T stride) :: 16 word)
      = (lanes (stride_offset_batch T stride) :: 16 word list) ! i"
    using assms(2) by (simp add: nth_lanes)
  also have "\<dots> = ucast (stride_offset_get stride (of_nat i))"
    using assms by (simp add: stride_offset_lanes_16 batch_size_def)
  finally show ?thesis .
qed

lemma batch_get_32:
  "sizeof T = 4 \<Longrightarrow> batch_get T r i = read_lane (is_signed T) (lane i r :: 32 word)"
  by (simp add: batch_get_def)

lemma stride_offset_lane_32:
  assumes "sizeof T = 4" and "i < 8"
  shows "(lane i (stride_offset_batch T stride) :: 32 word) = ucast (stride_offset_get stride (of_nat i))"
proof -
  have "(lane i (stride_offset_batch T stride) :: 32 word)
      = (lanes (stride_offset_batch T stride) :: 32 word list) ! i"
    using assms(2) by (simp add: nth_lanes)
  also have "\<dots> = ucast (stride_offset_get stride (of_nat i))"
    using assms by (simp add: stride_offset_lanes_32 batch_size_def)
  finally show ?thesis .
qed

lemma batch_get_64:
  "sizeof T = 8 \<Longrightarrow> batch_get T r i = read_lane (is_signed T) (lane i r :: 64 word)"
  by (simp add: batch_get_def)

lemma stride_offset_lane_64:
  assumes "sizeof T = 8" and "i < 4"
  shows "(lane i (stride_offset_batch T stride) :: 64 word) = ucast (stride_offset_get stride (of_nat i))"
proof -
  have "(lane i (stride_offset_batch T stride) :: 64 word)
      = (lanes (stride_offset_batch T stride) :: 64 word list) ! i"
    using assms(2) by (simp add: nth_lanes)
  also have "\<dots> = ucast (stride_offset_get stride (of_nat i))"
    using assms by (simp add: stride_offset_lanes_64 batch_size_def)
  finally show ?thesis .
qed

lemma stride_offset_batch_get_mod:
  assumes "i < batch_size T"
  shows "batch_get T (stride_offset_batch T stride) i mod 2 ^ (8 * sizeof T)
       = uint (stride_offset_get stride (of_nat i)) mod 2 ^ (8 * sizeof T)"
  using batch_size_cases [of T] assms
  by (elim disjE conjE)
     (simp_all add: batch_get_8 batch_get_16 batch_get_32 batch_get_64
        stride_offset_lane_8 stride_offset_lane_16 stride_offset_lane_32 stride_offset_lane_64
        read_lane_ucast_mod [where ?'a = 8, simplified] read_lane_ucast_mod [where ?'a = 16, simplified]
        read_lane_ucast_mod [where ?'a = 32, simplified]
        read_lane_ucast_mod [where ?'a = 64 and ?'b = 64, simplified])

lemma stride_offset_batch_get_exact:
  assumes "i < batch_size T"
    and "uint (stride_offset_get stride (of_nat i)) < 2 ^ (8 * sizeof T - (if is_signed T then 1 else 0))"
  shows "batch_get T (stride_offset_batch T stride) i = uint (stride_offset_get stride (of_nat i))"
  using batch_size_cases [of T] assms
  by (elim disjE conjE)
     (simp_all add: batch_get_8 batch_get_16 batch_get_32 batch_get_64
        stride_offset_lane_8 stride_offset_lane_16 stride_offset_lane_32 stride_offset_lane_64
        read_lane_ucast_exact read_lane_ucast_exact [where ?'a = 64 and ?'b = 64, simplified])


lemma sizeof_as_integer: "sizeof (as_integer T) = sizeof T"
  by (cases T) simp_all

lemma is_signed_as_integer: "is_signed (as_integer T)"
  by (cases T) simp_all

lemma batch_size_as_integer: "batch_size (as_integer T) = batch_size T"
  by (simp add: batch_size_def sizeof_as_integer)

lemma uint_of_nat_size_t:
  assumes "int i < 2 ^ (LENGTH('a::len) - 1)" and "LENGTH('a) \<le> 64"
  shows "uint (of_nat i :: size_t) = int i"
proof -
  have "(2::int) ^ (LENGTH('a) - 1) \<le> 2 ^ 64"
    using assms(2) by (intro power_increasing) simp_all
  with assms(1) have "int i < 2 ^ 64"
    by (rule less_le_trans)
  then have "i < 2 ^ 64"
    by (metis of_nat_less_iff of_nat_numeral of_nat_power)
  then have "unat (of_nat i :: size_t) = i"
    by (simp add: unat_of_nat)
  then show ?thesis
    by (simp add: uint_nat)
qed

lemma signed_compare_small:
  fixes nn :: size_t
  assumes n: "uint nn < 2 ^ (LENGTH('a) - 1)" and i: "int i < 2 ^ (LENGTH('a) - 1)"
    and w: "LENGTH('a) \<le> 64"
  shows "sint (ucast nn :: 'a::len word) > sint (ucast (of_nat i :: size_t) :: 'a word)
     \<longleftrightarrow> (of_nat i :: size_t) < nn"
proof -
  have ui: "uint (of_nat i :: size_t) = int i"
    using i w by (rule uint_of_nat_size_t)
  have "sint (ucast nn :: 'a word) = uint nn"
    using read_lane_ucast_exact [of nn True, where ?'a = 'a] n by (simp add: read_lane_def)
  moreover have "sint (ucast (of_nat i :: size_t) :: 'a word) = int i"
    using read_lane_ucast_exact [of "of_nat i :: size_t" True, where ?'a = 'a] i ui
    by (simp add: read_lane_def)
  ultimately show ?thesis
    by (simp add: word_less_def ui)
qed

lemma bool_of_lane_if: "bool_of_lane (if c then - 1 else 0 :: 'a::len word) = c"
  by (simp add: bool_of_lane_def)

lemma bool_byte_nonzero: "bool_byte v \<noteq> 0 \<longleftrightarrow> v"
  by (simp add: bool_byte_def)

lemma lane_broadcast_8:
  "sizeof T = 1 \<Longrightarrow> i < 32 \<Longrightarrow> (lane i (broadcast T v) :: 8 word) = ucast v"
proof -
  assume a: "sizeof T = 1" "i < 32"
  then have "(lane i (broadcast T v) :: 8 word) = (lanes (broadcast T v) :: 8 word list) ! i"
    by (simp add: nth_lanes)
  also have "\<dots> = ucast v"
    using a by (simp add: lanes_broadcast_8)
  finally show ?thesis .
qed

lemma lane_batch_set_8:
  "sizeof T = 1 \<Longrightarrow> length vs = 32 \<Longrightarrow> i < 32 \<Longrightarrow> (lane i (batch_set T vs) :: 8 word) = ucast (vs ! i)"
proof -
  assume a: "sizeof T = 1" "length vs = 32" "i < 32"
  then have "(lane i (batch_set T vs) :: 8 word) = (lanes (batch_set T vs) :: 8 word list) ! i"
    by (simp add: nth_lanes)
  also have "\<dots> = ucast (vs ! i)"
    using a by (simp add: lanes_batch_set_8)
  finally show ?thesis .
qed

lemma batch_bool_get_8:
  "sizeof T = 1 \<Longrightarrow> i < 32 \<Longrightarrow> batch_bool_get T r i = bool_of_lane (lane i r :: 8 word)"
  by (simp add: batch_bool_get_def batch_bool_store_aligned_def batch_size_def bool_byte_nonzero)

lemma first_n_true_lane_8:
  assumes "sizeof T = 1" and "i < 32"
  shows "(lane i (first_n_true_batch T nn) :: 8 word)
      = (if sint (ucast nn :: 8 word) > sint (ucast (of_nat i :: size_t) :: 8 word) then - 1 else 0)"
  using assms
  by (simp add: first_n_true_batch_def lt_def gt_def mm256_cmpgt_epi8_def lane_lanewise2
      lane_broadcast_8 lane_batch_set_8 ramp_values batch_size_def
      sizeof_as_integer is_signed_as_integer)

lemma lane_broadcast_16:
  "sizeof T = 2 \<Longrightarrow> i < 16 \<Longrightarrow> (lane i (broadcast T v) :: 16 word) = ucast v"
proof -
  assume a: "sizeof T = 2" "i < 16"
  then have "(lane i (broadcast T v) :: 16 word) = (lanes (broadcast T v) :: 16 word list) ! i"
    by (simp add: nth_lanes)
  also have "\<dots> = ucast v"
    using a by (simp add: lanes_broadcast_16)
  finally show ?thesis .
qed

lemma lane_batch_set_16:
  "sizeof T = 2 \<Longrightarrow> length vs = 16 \<Longrightarrow> i < 16 \<Longrightarrow> (lane i (batch_set T vs) :: 16 word) = ucast (vs ! i)"
proof -
  assume a: "sizeof T = 2" "length vs = 16" "i < 16"
  then have "(lane i (batch_set T vs) :: 16 word) = (lanes (batch_set T vs) :: 16 word list) ! i"
    by (simp add: nth_lanes)
  also have "\<dots> = ucast (vs ! i)"
    using a by (simp add: lanes_batch_set_16)
  finally show ?thesis .
qed

lemma batch_bool_get_16:
  "sizeof T = 2 \<Longrightarrow> i < 16 \<Longrightarrow> batch_bool_get T r i = bool_of_lane (lane i r :: 16 word)"
  by (simp add: batch_bool_get_def batch_bool_store_aligned_def batch_size_def bool_byte_nonzero)

lemma first_n_true_lane_16:
  assumes "sizeof T = 2" and "i < 16"
  shows "(lane i (first_n_true_batch T nn) :: 16 word)
      = (if sint (ucast nn :: 16 word) > sint (ucast (of_nat i :: size_t) :: 16 word) then - 1 else 0)"
  using assms
  by (simp add: first_n_true_batch_def lt_def gt_def mm256_cmpgt_epi16_def lane_lanewise2
      lane_broadcast_16 lane_batch_set_16 ramp_values batch_size_def
      sizeof_as_integer is_signed_as_integer)

lemma lane_broadcast_32:
  "sizeof T = 4 \<Longrightarrow> i < 8 \<Longrightarrow> (lane i (broadcast T v) :: 32 word) = ucast v"
proof -
  assume a: "sizeof T = 4" "i < 8"
  then have "(lane i (broadcast T v) :: 32 word) = (lanes (broadcast T v) :: 32 word list) ! i"
    by (simp add: nth_lanes)
  also have "\<dots> = ucast v"
    using a by (simp add: lanes_broadcast_32)
  finally show ?thesis .
qed

lemma lane_batch_set_32:
  "sizeof T = 4 \<Longrightarrow> length vs = 8 \<Longrightarrow> i < 8 \<Longrightarrow> (lane i (batch_set T vs) :: 32 word) = ucast (vs ! i)"
proof -
  assume a: "sizeof T = 4" "length vs = 8" "i < 8"
  then have "(lane i (batch_set T vs) :: 32 word) = (lanes (batch_set T vs) :: 32 word list) ! i"
    by (simp add: nth_lanes)
  also have "\<dots> = ucast (vs ! i)"
    using a by (simp add: lanes_batch_set_32)
  finally show ?thesis .
qed

lemma batch_bool_get_32:
  "sizeof T = 4 \<Longrightarrow> i < 8 \<Longrightarrow> batch_bool_get T r i = bool_of_lane (lane i r :: 32 word)"
  by (simp add: batch_bool_get_def batch_bool_store_aligned_def batch_size_def bool_byte_nonzero)

lemma first_n_true_lane_32:
  assumes "sizeof T = 4" and "i < 8"
  shows "(lane i (first_n_true_batch T nn) :: 32 word)
      = (if sint (ucast nn :: 32 word) > sint (ucast (of_nat i :: size_t) :: 32 word) then - 1 else 0)"
  using assms
  by (simp add: first_n_true_batch_def lt_def gt_def mm256_cmpgt_epi32_def lane_lanewise2
      lane_broadcast_32 lane_batch_set_32 ramp_values batch_size_def
      sizeof_as_integer is_signed_as_integer)

lemma lane_broadcast_64:
  "sizeof T = 8 \<Longrightarrow> i < 4 \<Longrightarrow> (lane i (broadcast T v) :: 64 word) = ucast v"
proof -
  assume a: "sizeof T = 8" "i < 4"
  then have "(lane i (broadcast T v) :: 64 word) = (lanes (broadcast T v) :: 64 word list) ! i"
    by (simp add: nth_lanes)
  also have "\<dots> = ucast v"
    using a by (simp add: lanes_broadcast_64)
  finally show ?thesis .
qed

lemma lane_batch_set_64:
  "sizeof T = 8 \<Longrightarrow> length vs = 4 \<Longrightarrow> i < 4 \<Longrightarrow> (lane i (batch_set T vs) :: 64 word) = ucast (vs ! i)"
proof -
  assume a: "sizeof T = 8" "length vs = 4" "i < 4"
  then have "(lane i (batch_set T vs) :: 64 word) = (lanes (batch_set T vs) :: 64 word list) ! i"
    by (simp add: nth_lanes)
  also have "\<dots> = ucast (vs ! i)"
    using a by (simp add: lanes_batch_set_64)
  finally show ?thesis .
qed

lemma batch_bool_get_64:
  "sizeof T = 8 \<Longrightarrow> i < 4 \<Longrightarrow> batch_bool_get T r i = bool_of_lane (lane i r :: 64 word)"
  by (simp add: batch_bool_get_def batch_bool_store_aligned_def batch_size_def bool_byte_nonzero)

lemma first_n_true_lane_64:
  assumes "sizeof T = 8" and "i < 4"
  shows "(lane i (first_n_true_batch T nn) :: 64 word)
      = (if sint (ucast nn :: 64 word) > sint (ucast (of_nat i :: size_t) :: 64 word) then - 1 else 0)"
  using assms
  by (simp add: first_n_true_batch_def lt_def gt_def mm256_cmpgt_epi64_def lane_lanewise2
      lane_broadcast_64 lane_batch_set_64 ramp_values batch_size_def
      sizeof_as_integer is_signed_as_integer)

lemma first_n_true_batch_get:
  assumes "i < batch_size T" and "uint nn < 2 ^ (8 * sizeof T - 1)"
  shows "batch_bool_get T (first_n_true_batch T nn) i = first_n_true_get nn (of_nat i)"
  using batch_size_cases [of T] assms
  by (elim disjE conjE)
     (simp_all add: batch_bool_get_8 batch_bool_get_16 batch_bool_get_32 batch_bool_get_64
        first_n_true_lane_8 first_n_true_lane_16 first_n_true_lane_32 first_n_true_lane_64
        bool_of_lane_if signed_compare_small first_n_true_get_def
        signed_compare_small [where ?'a = 64, simplified])


text \<open>
  C3, amended. For every element type \<open>T\<close> and every lane \<open>i < size\<close>: lane \<open>i\<close> of
  \<open>stride_offset(stride)\<close> converted to a batch and \<open>get(i) = stride * i\<close> agree modulo
  \<open>2 ^ (8 * sizeof(T))\<close>, and are equal whenever \<open>get(i)\<close> is representable in \<open>T\<close>; lane
  \<open>i\<close> of \<open>first_n_true(n)\<close> converted to a batch_bool is \<open>get(i) = (i < n)\<close> whenever \<open>n\<close>
  is representable in the signed integer type of the size of \<open>T\<close>.
\<close>

theorem gather_helpers_agree:
  "(\<forall>T stride i. i < batch_size T \<longrightarrow>
      stride_offset_get stride (of_nat i) = stride * of_nat i
      \<and> batch_get T (stride_offset_batch T stride) i mod 2 ^ (8 * sizeof T)
          = uint (stride_offset_get stride (of_nat i)) mod 2 ^ (8 * sizeof T)
      \<and> (uint (stride_offset_get stride (of_nat i))
            < 2 ^ (8 * sizeof T - (if is_signed T then 1 else 0)) \<longrightarrow>
          batch_get T (stride_offset_batch T stride) i = uint (stride_offset_get stride (of_nat i))))
   \<and> (\<forall>T n i. i < batch_size T \<and> uint n < 2 ^ (8 * sizeof T - 1) \<longrightarrow>
      first_n_true_get n (of_nat i) = (of_nat i < n)
      \<and> batch_bool_get T (first_n_true_batch T n) i = first_n_true_get n (of_nat i))"
  by (simp add: stride_offset_batch_get_mod stride_offset_batch_get_exact first_n_true_batch_get
      stride_offset_get_def [symmetric] first_n_true_get_def [symmetric])

theorem gather_helpers_agree_witness:
  "batch_get Int32 (stride_offset_batch Int32 12) 5 = 60
   \<and> batch_bool_get Int32 (first_n_true_batch Int32 3) 2
   \<and> \<not> batch_bool_get Int32 (first_n_true_batch Int32 3) 3"
proof -
  have b: "(5::nat) < batch_size Int32" "(2::nat) < batch_size Int32" "(3::nat) < batch_size Int32"
    by (simp_all add: batch_size_def)
  have g: "uint (stride_offset_get 12 (of_nat 5)) = 60"
    by (simp add: stride_offset_get_def)
  have 1: "batch_get Int32 (stride_offset_batch Int32 12) 5 = 60"
    using gather_helpers_agree [THEN conjunct1, rule_format, OF b(1), of 12] g
    by simp
  have 2: "batch_bool_get Int32 (first_n_true_batch Int32 3) 2"
    using gather_helpers_agree [THEN conjunct2, rule_format, of 2 Int32 3] b(2)
    by (simp add: first_n_true_get_def)
  have 3: "\<not> batch_bool_get Int32 (first_n_true_batch Int32 3) 3"
    using gather_helpers_agree [THEN conjunct2, rule_format, of 3 Int32 3] b(3)
    by (simp add: first_n_true_get_def)
  from 1 2 3 show ?thesis
    by simp
qed

text \<open>
  C3 as stated fails where the \<open>std::size_t\<close> value does not fit the lane. With 2-byte
  lanes, \<open>stride_offset(10000)\<close> has \<open>get(7) = 70000\<close> and lane 7 equal to \<open>4464\<close>; and
  \<open>first_n_true(32768)\<close> has \<open>get(0) = true\<close> and lane 0 false, the comparison being made
  against \<open>(int16_t)32768 = -32768\<close>.
\<close>

theorem gather_helpers_counterexample:
  "batch_get Int16 (stride_offset_batch Int16 10000) 7 \<noteq> uint (stride_offset_get 10000 7)
   \<and> batch_bool_get Int16 (first_n_true_batch Int16 32768) 0 \<noteq> first_n_true_get 32768 0"
proof -
  have "batch_get Int16 (stride_offset_batch Int16 10000) 7 = 4464"
    using stride_offset_lane_16 [of Int16 7 10000]
    by (simp add: batch_get_16 stride_offset_get_def read_lane_def)
  moreover have "uint (stride_offset_get 10000 7) = 70000"
    by (simp add: stride_offset_get_def)
  moreover have "\<not> batch_bool_get Int16 (first_n_true_batch Int16 32768) 0"
    using first_n_true_lane_16 [of Int16 0 32768]
    by (simp add: batch_bool_get_16 bool_of_lane_def)
  moreover have "first_n_true_get 32768 0"
    by (simp add: first_n_true_get_def)
  ultimately show ?thesis
    by simp
qed

section \<open>Properties of boolean batches in memory\<close>

lemma set1_epi32_ones: "mm256_set1_epi32 (- 1) = - 1"
  by (rule bit_word_eqI) (simp add: mm256_set1_epi32_def bit_of_lanes)

lemma bitwise_not_eq_not: "bitwise_not T x = NOT x"
  by (simp add: bitwise_not_def mm256_xor_si256_def set1_epi32_ones)

lemma lanes_eqI:
  assumes "LENGTH('a::len) dvd LENGTH('r::len)"
    and "(lanes (x :: 'r word) :: 'a word list) = lanes y"
  shows "x = y"
proof -
  have "x = of_lanes (lanes x :: 'a word list)"
    using assms(1) by (simp add: of_lanes_lanes)
  also have "\<dots> = of_lanes (lanes y :: 'a word list)"
    by (simp only: assms(2))
  also have "\<dots> = y"
    using assms(1) by (simp add: of_lanes_lanes)
  finally show ?thesis .
qed

lemma valid_lane_cases: "valid_lane x \<Longrightarrow> bool_pattern (bool_of_lane x) = x"
  by (auto simp add: valid_lane_def bool_pattern_def bool_of_lane_def)

lemma read_lane_mod_numeral:
  "read_lane s (x :: 8 word) mod 256 = uint x"
  "read_lane s (y :: 16 word) mod 65536 = uint y"
  "read_lane s (z :: 32 word) mod 4294967296 = uint z"
  "read_lane s (w :: 64 word) mod 18446744073709551616 = uint w"
  using read_lane_mod [of s x] read_lane_mod [of s y] read_lane_mod [of s z] read_lane_mod [of s w]
  by simp_all

lemma allow_signed_conversion_views:
  "allow_signed_conversion_get T b i = batch_get (make_unsigned T) b i
   \<and> allow_signed_conversion_batch T b = b
   \<and> allow_signed_conversion_get T b i
       = batch_get (make_signed T) (allow_signed_conversion_batch T b) i mod 2 ^ (8 * sizeof T)"
  by (cases T)
     (simp_all add: allow_signed_conversion_get_def allow_signed_conversion_batch_def bitwise_cast_def
        static_cast_unsigned_def batch_get_def read_lane_mod_numeral,
      simp_all add: read_lane_def read_lane_mod_numeral [where s = True, unfolded read_lane_def, simplified])

lemma load_lane_8:
  assumes "sizeof T = 1" and "i < 32"
  shows "(lane i (batch_bool_load_aligned T mem) :: 8 word) = bool_pattern (mem ! i \<noteq> 0)"
proof -
  have buf: "(lane i (batch_set T (map (\<lambda>i. if mem ! i \<noteq> 0 then 1 else 0 :: size_t) [0..<32])) :: 8 word)
      = (if mem ! i \<noteq> 0 then 1 else 0)"
    using assms by (simp add: lane_batch_set_8)
  have ref: "(lane i (broadcast T (0 :: cint)) :: 8 word) = 0"
    using assms by (simp add: lane_broadcast_8)
  have "Suc i * LENGTH(8) \<le> LENGTH(256)"
    using assms(2) by simp
  then show ?thesis
    using assms
    by (simp add: batch_bool_load_aligned_def neq_def bitwise_not_eq_not eq_def mm256_cmpeq_epi8_def
        lane_not lane_lanewise2 batch_size_def buf ref bool_pattern_def)
qed

lemma store_nth_8:
  assumes "sizeof T = 1" and "i < 32"
  shows "batch_bool_store_aligned T b ! i = bool_byte (bool_of_lane (lane i b :: 8 word))"
    and "length (batch_bool_store_aligned T b) = 32"
  using assms by (simp_all add: batch_bool_store_aligned_def batch_size_def)

lemma load_store_8:
  assumes T: "sizeof T = 1" and v: "valid_batch_bool T b"
  shows "batch_bool_load_aligned T (batch_bool_store_aligned T b) = b"
proof (rule lanes_eqI [where ?'a = 8])
  show "LENGTH(8) dvd LENGTH(256)"
    by simp
  show "(lanes (batch_bool_load_aligned T (batch_bool_store_aligned T b)) :: 8 word list) = lanes b"
  proof (rule nth_equalityI)
    show "length (lanes (batch_bool_load_aligned T (batch_bool_store_aligned T b)) :: 8 word list)
        = length (lanes b :: 8 word list)"
      by (simp add: length_lanes)
  next
    fix i assume "i < length (lanes (batch_bool_load_aligned T (batch_bool_store_aligned T b)) :: 8 word list)"
    then have i: "i < 32"
      by (simp add: length_lanes)
    from v T have "list_all valid_lane (lanes b :: 8 word list)"
      by (simp add: valid_batch_bool_def)
    with i have "valid_lane (lanes b ! i :: 8 word)"
      by (simp add: list_all_length length_lanes)
    with i have "valid_lane (lane i b :: 8 word)"
      by (simp add: nth_lanes)
    then have "bool_pattern (bool_of_lane (lane i b :: 8 word)) = (lane i b :: 8 word)"
      by (rule valid_lane_cases)
    with i T show "(lanes (batch_bool_load_aligned T (batch_bool_store_aligned T b)) :: 8 word list) ! i
        = lanes b ! i"
      by (simp add: nth_lanes load_lane_8 store_nth_8 bool_byte_nonzero)
  qed
qed

lemma load_lane_16:
  assumes "sizeof T = 2" and "i < 16"
  shows "(lane i (batch_bool_load_aligned T mem) :: 16 word) = bool_pattern (mem ! i \<noteq> 0)"
proof -
  have buf: "(lane i (batch_set T (map (\<lambda>i. if mem ! i \<noteq> 0 then 1 else 0 :: size_t) [0..<16])) :: 16 word)
      = (if mem ! i \<noteq> 0 then 1 else 0)"
    using assms by (simp add: lane_batch_set_16)
  have ref: "(lane i (broadcast T (0 :: cint)) :: 16 word) = 0"
    using assms by (simp add: lane_broadcast_16)
  have "Suc i * LENGTH(16) \<le> LENGTH(256)"
    using assms(2) by simp
  then show ?thesis
    using assms
    by (simp add: batch_bool_load_aligned_def neq_def bitwise_not_eq_not eq_def mm256_cmpeq_epi16_def
        lane_not lane_lanewise2 batch_size_def buf ref bool_pattern_def)
qed

lemma store_nth_16:
  assumes "sizeof T = 2" and "i < 16"
  shows "batch_bool_store_aligned T b ! i = bool_byte (bool_of_lane (lane i b :: 16 word))"
    and "length (batch_bool_store_aligned T b) = 16"
  using assms by (simp_all add: batch_bool_store_aligned_def batch_size_def)

lemma load_store_16:
  assumes T: "sizeof T = 2" and v: "valid_batch_bool T b"
  shows "batch_bool_load_aligned T (batch_bool_store_aligned T b) = b"
proof (rule lanes_eqI [where ?'a = 16])
  show "LENGTH(16) dvd LENGTH(256)"
    by simp
  show "(lanes (batch_bool_load_aligned T (batch_bool_store_aligned T b)) :: 16 word list) = lanes b"
  proof (rule nth_equalityI)
    show "length (lanes (batch_bool_load_aligned T (batch_bool_store_aligned T b)) :: 16 word list)
        = length (lanes b :: 16 word list)"
      by (simp add: length_lanes)
  next
    fix i assume "i < length (lanes (batch_bool_load_aligned T (batch_bool_store_aligned T b)) :: 16 word list)"
    then have i: "i < 16"
      by (simp add: length_lanes)
    from v T have "list_all valid_lane (lanes b :: 16 word list)"
      by (simp add: valid_batch_bool_def)
    with i have "valid_lane (lanes b ! i :: 16 word)"
      by (simp add: list_all_length length_lanes)
    with i have "valid_lane (lane i b :: 16 word)"
      by (simp add: nth_lanes)
    then have "bool_pattern (bool_of_lane (lane i b :: 16 word)) = (lane i b :: 16 word)"
      by (rule valid_lane_cases)
    with i T show "(lanes (batch_bool_load_aligned T (batch_bool_store_aligned T b)) :: 16 word list) ! i
        = lanes b ! i"
      by (simp add: nth_lanes load_lane_16 store_nth_16 bool_byte_nonzero)
  qed
qed

lemma load_lane_32:
  assumes "sizeof T = 4" and "i < 8"
  shows "(lane i (batch_bool_load_aligned T mem) :: 32 word) = bool_pattern (mem ! i \<noteq> 0)"
proof -
  have buf: "(lane i (batch_set T (map (\<lambda>i. if mem ! i \<noteq> 0 then 1 else 0 :: size_t) [0..<8])) :: 32 word)
      = (if mem ! i \<noteq> 0 then 1 else 0)"
    using assms by (simp add: lane_batch_set_32)
  have ref: "(lane i (broadcast T (0 :: cint)) :: 32 word) = 0"
    using assms by (simp add: lane_broadcast_32)
  have "Suc i * LENGTH(32) \<le> LENGTH(256)"
    using assms(2) by simp
  then show ?thesis
    using assms
    by (simp add: batch_bool_load_aligned_def neq_def bitwise_not_eq_not eq_def mm256_cmpeq_epi32_def
        lane_not lane_lanewise2 batch_size_def buf ref bool_pattern_def)
qed

lemma store_nth_32:
  assumes "sizeof T = 4" and "i < 8"
  shows "batch_bool_store_aligned T b ! i = bool_byte (bool_of_lane (lane i b :: 32 word))"
    and "length (batch_bool_store_aligned T b) = 8"
  using assms by (simp_all add: batch_bool_store_aligned_def batch_size_def)

lemma load_store_32:
  assumes T: "sizeof T = 4" and v: "valid_batch_bool T b"
  shows "batch_bool_load_aligned T (batch_bool_store_aligned T b) = b"
proof (rule lanes_eqI [where ?'a = 32])
  show "LENGTH(32) dvd LENGTH(256)"
    by simp
  show "(lanes (batch_bool_load_aligned T (batch_bool_store_aligned T b)) :: 32 word list) = lanes b"
  proof (rule nth_equalityI)
    show "length (lanes (batch_bool_load_aligned T (batch_bool_store_aligned T b)) :: 32 word list)
        = length (lanes b :: 32 word list)"
      by (simp add: length_lanes)
  next
    fix i assume "i < length (lanes (batch_bool_load_aligned T (batch_bool_store_aligned T b)) :: 32 word list)"
    then have i: "i < 8"
      by (simp add: length_lanes)
    from v T have "list_all valid_lane (lanes b :: 32 word list)"
      by (simp add: valid_batch_bool_def)
    with i have "valid_lane (lanes b ! i :: 32 word)"
      by (simp add: list_all_length length_lanes)
    with i have "valid_lane (lane i b :: 32 word)"
      by (simp add: nth_lanes)
    then have "bool_pattern (bool_of_lane (lane i b :: 32 word)) = (lane i b :: 32 word)"
      by (rule valid_lane_cases)
    with i T show "(lanes (batch_bool_load_aligned T (batch_bool_store_aligned T b)) :: 32 word list) ! i
        = lanes b ! i"
      by (simp add: nth_lanes load_lane_32 store_nth_32 bool_byte_nonzero)
  qed
qed

lemma load_lane_64:
  assumes "sizeof T = 8" and "i < 4"
  shows "(lane i (batch_bool_load_aligned T mem) :: 64 word) = bool_pattern (mem ! i \<noteq> 0)"
proof -
  have buf: "(lane i (batch_set T (map (\<lambda>i. if mem ! i \<noteq> 0 then 1 else 0 :: size_t) [0..<4])) :: 64 word)
      = (if mem ! i \<noteq> 0 then 1 else 0)"
    using assms by (simp add: lane_batch_set_64)
  have ref: "(lane i (broadcast T (0 :: cint)) :: 64 word) = 0"
    using assms by (simp add: lane_broadcast_64)
  have "Suc i * LENGTH(64) \<le> LENGTH(256)"
    using assms(2) by simp
  then show ?thesis
    using assms
    by (simp add: batch_bool_load_aligned_def neq_def bitwise_not_eq_not eq_def mm256_cmpeq_epi64_def
        lane_not lane_lanewise2 batch_size_def buf ref bool_pattern_def)
qed

lemma store_nth_64:
  assumes "sizeof T = 8" and "i < 4"
  shows "batch_bool_store_aligned T b ! i = bool_byte (bool_of_lane (lane i b :: 64 word))"
    and "length (batch_bool_store_aligned T b) = 4"
  using assms by (simp_all add: batch_bool_store_aligned_def batch_size_def)

lemma load_store_64:
  assumes T: "sizeof T = 8" and v: "valid_batch_bool T b"
  shows "batch_bool_load_aligned T (batch_bool_store_aligned T b) = b"
proof (rule lanes_eqI [where ?'a = 64])
  show "LENGTH(64) dvd LENGTH(256)"
    by simp
  show "(lanes (batch_bool_load_aligned T (batch_bool_store_aligned T b)) :: 64 word list) = lanes b"
  proof (rule nth_equalityI)
    show "length (lanes (batch_bool_load_aligned T (batch_bool_store_aligned T b)) :: 64 word list)
        = length (lanes b :: 64 word list)"
      by (simp add: length_lanes)
  next
    fix i assume "i < length (lanes (batch_bool_load_aligned T (batch_bool_store_aligned T b)) :: 64 word list)"
    then have i: "i < 4"
      by (simp add: length_lanes)
    from v T have "list_all valid_lane (lanes b :: 64 word list)"
      by (simp add: valid_batch_bool_def)
    with i have "valid_lane (lanes b ! i :: 64 word)"
      by (simp add: list_all_length length_lanes)
    with i have "valid_lane (lane i b :: 64 word)"
      by (simp add: nth_lanes)
    then have "bool_pattern (bool_of_lane (lane i b :: 64 word)) = (lane i b :: 64 word)"
      by (rule valid_lane_cases)
    with i T show "(lanes (batch_bool_load_aligned T (batch_bool_store_aligned T b)) :: 64 word list) ! i
        = lanes b ! i"
      by (simp add: nth_lanes load_lane_64 store_nth_64 bool_byte_nonzero)
  qed
qed


lemma valid_load_8:
  assumes "sizeof T = 1"
  shows "valid_batch_bool T (batch_bool_load_aligned T mem)"
    using assms
    by (simp add: valid_batch_bool_def list_all_length length_lanes nth_lanes load_lane_8 valid_lane_pattern)

lemma valid_load_16:
  assumes "sizeof T = 2"
  shows "valid_batch_bool T (batch_bool_load_aligned T mem)"
    using assms
    by (simp add: valid_batch_bool_def list_all_length length_lanes nth_lanes load_lane_16 valid_lane_pattern)

lemma valid_load_32:
  assumes "sizeof T = 4"
  shows "valid_batch_bool T (batch_bool_load_aligned T mem)"
    using assms
    by (simp add: valid_batch_bool_def list_all_length length_lanes nth_lanes load_lane_32 valid_lane_pattern)

lemma valid_load_64:
  assumes "sizeof T = 8"
  shows "valid_batch_bool T (batch_bool_load_aligned T mem)"
    using assms
    by (simp add: valid_batch_bool_def list_all_length length_lanes nth_lanes load_lane_64 valid_lane_pattern)

lemma load_store_identity:
  assumes "valid_batch_bool T b"
  shows "batch_bool_load_aligned T (batch_bool_store_aligned T b) = b"
  using batch_size_cases [of T] assms
  by (elim disjE conjE) (simp_all add: load_store_8 load_store_16 load_store_32 load_store_64)

lemma store_holds_get:
  assumes "i < batch_size T"
  shows "batch_bool_store_aligned T b ! i = bool_byte (batch_bool_get T b i)"
  using batch_size_cases [of T] assms
  by (elim disjE conjE)
     (simp_all add: batch_bool_get_def store_nth_8 store_nth_16 store_nth_32 store_nth_64
        bool_byte_nonzero)

lemma length_store: "length (batch_bool_store_aligned T b) = batch_size T"
  by (simp add: batch_bool_store_aligned_def)

lemma load_normalizes:
  assumes "i < batch_size T"
  shows "batch_bool_get T (batch_bool_load_aligned T mem) i = (mem ! i \<noteq> 0)"
  using batch_size_cases [of T] assms
  by (elim disjE conjE)
     (simp_all add: batch_bool_get_8 batch_bool_get_16 batch_bool_get_32 batch_bool_get_64
        load_lane_8 load_lane_16 load_lane_32 load_lane_64 bool_of_lane_pattern)

lemma valid_load: "valid_batch_bool T (batch_bool_load_aligned T mem)"
  using batch_size_cases [of T]
  by (elim disjE conjE) (simp_all add: valid_load_8 valid_load_16 valid_load_32 valid_load_64)

section \<open>Properties of the signed view\<close>

text \<open>
  C9. For every integer batch \<open>b\<close> wrapped by \<open>allow_signed_conversion\<close> and every lane
  \<open>i\<close>: \<open>get(i)\<close> is lane \<open>i\<close> of \<open>b\<close> read as an unsigned number, the conversion to the
  signed batch keeps the register, and the value of lane \<open>i\<close> of the signed batch and
  \<open>get(i)\<close> agree modulo \<open>2 ^ (8 * sizeof(T))\<close>, that is, they have the same bit pattern.
\<close>

theorem allow_signed_conversion_same_lanes:
  "allow_signed_conversion_get T b i = batch_get (make_unsigned T) b i
   \<and> allow_signed_conversion_batch T b = b
   \<and> allow_signed_conversion_get T b i
       = batch_get (make_signed T) (allow_signed_conversion_batch T b) i mod 2 ^ (8 * sizeof T)"
  by (rule allow_signed_conversion_views)

theorem allow_signed_conversion_same_lanes_witness:
  "allow_signed_conversion_get Int8 (broadcast Int8 (255 :: 8 word)) 3 = 255
   \<and> batch_get Int8 (allow_signed_conversion_batch Int8 (broadcast Int8 (255 :: 8 word))) 3 = - 1"
proof -
  have l: "(lane 3 (broadcast Int8 (255 :: 8 word)) :: 8 word) = 255"
    by (simp add: lane_broadcast_8)
  have u: "batch_get UInt8 (broadcast Int8 (255 :: 8 word)) 3 = 255"
    and s: "batch_get Int8 (broadcast Int8 (255 :: 8 word)) 3 = - 1"
    by (simp_all add: batch_get_8 l read_lane_def)
  show ?thesis
    using allow_signed_conversion_same_lanes [of Int8 "broadcast Int8 (255 :: 8 word)" 3]
    by (simp add: u s)
qed

section \<open>The store and load round trip of a boolean batch\<close>

text \<open>
  C10. For every element type \<open>T\<close> and every batch_bool \<open>b\<close> whose lanes are all ones or
  all zeros, loading what \<open>store_aligned\<close> wrote gives \<open>b\<close> back, and so agrees with \<open>b\<close>
  at every lane; the stored array has \<open>size\<close> elements and holds \<open>b.get(i)\<close> at index
  \<open>i\<close>; and \<open>load_aligned\<close> of any array of at least \<open>size\<close> bytes makes lane \<open>i\<close> true
  exactly when byte \<open>i\<close> is not zero, every lane of the result being all ones or all
  zeros.
\<close>

theorem batch_bool_store_load_roundtrip:
  "(valid_batch_bool T b \<longrightarrow>
      batch_bool_load_aligned T (batch_bool_store_aligned T b) = b
      \<and> (\<forall>i < batch_size T.
            batch_bool_get T (batch_bool_load_aligned T (batch_bool_store_aligned T b)) i
              = batch_bool_get T b i))
   \<and> length (batch_bool_store_aligned T b) = batch_size T
   \<and> (\<forall>i < batch_size T. batch_bool_store_aligned T b ! i = bool_byte (batch_bool_get T b i))
   \<and> (batch_size T \<le> length mem \<longrightarrow>
        (\<forall>i < batch_size T. batch_bool_get T (batch_bool_load_aligned T mem) i = (mem ! i \<noteq> 0))
        \<and> valid_batch_bool T (batch_bool_load_aligned T mem))"
  by (simp add: load_store_identity length_store store_holds_get load_normalizes valid_load)

theorem batch_bool_store_load_roundtrip_witness:
  "valid_batch_bool Int32 (batch_bool_set Int32 [True, False, True, True, False, False, False, True])
   \<and> batch_bool_load_aligned Int32 (batch_bool_store_aligned Int32
         (batch_bool_set Int32 [True, False, True, True, False, False, False, True]))
       = batch_bool_set Int32 [True, False, True, True, False, False, False, True]
   \<and> batch_bool_store_aligned Int32 (batch_bool_set Int32 [True, False, True, True, False, False, False, True]) ! 2
       = 1
   \<and> batch_bool_store_aligned Int32 (batch_bool_set Int32 [True, False, True, True, False, False, False, True]) ! 4
       = 0"
proof -
  let ?b = "batch_bool_set Int32 [True, False, True, True, False, False, False, True]"
  have l: "(lanes ?b :: 32 word list) = map bool_pattern [True, False, True, True, False, False, False, True]"
    unfolding batch_bool_set_def by (simp add: lanes_of_lanes del: of_lanes.simps)
  have v: "valid_batch_bool Int32 ?b"
    by (simp add: valid_batch_bool_def l valid_lane_pattern del: of_lanes.simps)
  have i: "(2::nat) < batch_size Int32" "(4::nat) < batch_size Int32"
    by (simp_all add: batch_size_def)
  have "(lane 2 ?b :: 32 word) = (lanes ?b :: 32 word list) ! 2"
    and "(lane 4 ?b :: 32 word) = (lanes ?b :: 32 word list) ! 4"
    by (simp_all add: nth_lanes del: of_lanes.simps)
  then have p: "(lane 2 ?b :: 32 word) = bool_pattern True" "(lane 4 ?b :: 32 word) = bool_pattern False"
    by (simp_all add: l)
  have g: "batch_bool_get Int32 ?b 2" "\<not> batch_bool_get Int32 ?b 4"
    by (simp_all add: batch_bool_get_32 p bool_of_lane_pattern del: of_lanes.simps)
  show ?thesis
    using batch_bool_store_load_roundtrip [of Int32 ?b] v i g
    by (simp add: bool_byte_def del: of_lanes.simps)
qed

section \<open>The right shift on lane values\<close>

lemma read_lane_signed_drop_bit:
  "read_lane True (signed_drop_bit n x) = read_lane True x div 2 ^ n"
  by (simp add: read_lane_def sint_signed_drop_bit_eq drop_bit_eq_div)

lemma read_lane_drop_bit:
  "read_lane False (drop_bit n x) = read_lane False x div 2 ^ n"
proof -
  have "uint (drop_bit n x) = drop_bit n (uint x)"
    by (simp add: unsigned_drop_bit_eq take_bit_int_eq_self uint_bounded)
  then show ?thesis
    by (simp add: read_lane_def drop_bit_eq_div)
qed

lemma rshift_int8_get:
  assumes "i < 32" and "unat k < 8"
  shows "batch_get Int8 (bitwise_rshift Int8 x k) i = batch_get Int8 x i div 2 ^ unat k"
proof -
  have "(lane i (bitwise_rshift Int8 x k) :: 8 word) = (lanes (bitwise_rshift Int8 x k) :: 8 word list) ! i"
    using assms(1) by (simp add: nth_lanes)
  also have "\<dots> = map (signed_drop_bit (unat k)) (lanes x) ! i"
    using assms(2) by (simp only: rshift_int8_lanes)
  also have "\<dots> = signed_drop_bit (unat k) (lane i x)"
    using assms(1) by (simp add: nth_lanes length_lanes)
  finally show ?thesis
    by (simp add: batch_get_def read_lane_signed_drop_bit)
qed

lemma rshift_int16_get:
  assumes "i < 16" and "unat k < 16"
  shows "batch_get Int16 (bitwise_rshift Int16 x k) i = batch_get Int16 x i div 2 ^ unat k"
proof -
  have "(lane i (bitwise_rshift Int16 x k) :: 16 word) = (lanes (bitwise_rshift Int16 x k) :: 16 word list) ! i"
    using assms(1) by (simp add: nth_lanes)
  also have "\<dots> = map (signed_drop_bit (unat k)) (lanes x) ! i"
    using assms(2) by (simp only: rshift_int16_lanes)
  also have "\<dots> = signed_drop_bit (unat k) (lane i x)"
    using assms(1) by (simp add: nth_lanes length_lanes)
  finally show ?thesis
    by (simp add: batch_get_def read_lane_signed_drop_bit)
qed

lemma rshift_int32_get:
  assumes "i < 8" and "unat k < 32"
  shows "batch_get Int32 (bitwise_rshift Int32 x k) i = batch_get Int32 x i div 2 ^ unat k"
proof -
  have "(lane i (bitwise_rshift Int32 x k) :: 32 word) = (lanes (bitwise_rshift Int32 x k) :: 32 word list) ! i"
    using assms(1) by (simp add: nth_lanes)
  also have "\<dots> = map (signed_drop_bit (unat k)) (lanes x) ! i"
    using assms(2) by (simp only: rshift_int32_lanes)
  also have "\<dots> = signed_drop_bit (unat k) (lane i x)"
    using assms(1) by (simp add: nth_lanes length_lanes)
  finally show ?thesis
    by (simp add: batch_get_def read_lane_signed_drop_bit)
qed

lemma rshift_int64_get:
  assumes "i < 4" and "unat k < 64"
  shows "batch_get Int64 (bitwise_rshift Int64 x k) i = batch_get Int64 x i div 2 ^ unat k"
proof -
  have "(lane i (bitwise_rshift Int64 x k) :: 64 word) = (lanes (bitwise_rshift Int64 x k) :: 64 word list) ! i"
    using assms(1) by (simp add: nth_lanes)
  also have "\<dots> = map (signed_drop_bit (unat k)) (lanes x) ! i"
    using assms(2) by (simp only: rshift_int64_lanes)
  also have "\<dots> = signed_drop_bit (unat k) (lane i x)"
    using assms(1) by (simp add: nth_lanes length_lanes)
  finally show ?thesis
    by (simp add: batch_get_def read_lane_signed_drop_bit)
qed

lemma rshift_uint8_get:
  assumes "i < 32" and "unat k < 8"
  shows "batch_get UInt8 (bitwise_rshift UInt8 x k) i = batch_get UInt8 x i div 2 ^ unat k"
proof -
  have "(lane i (bitwise_rshift UInt8 x k) :: 8 word) = (lanes (bitwise_rshift UInt8 x k) :: 8 word list) ! i"
    using assms(1) by (simp add: nth_lanes)
  also have "\<dots> = map (drop_bit (unat k)) (lanes x) ! i"
    using assms(2) by (simp only: rshift_uint8_lanes)
  also have "\<dots> = drop_bit (unat k) (lane i x)"
    using assms(1) by (simp add: nth_lanes length_lanes)
  finally show ?thesis
    by (simp add: batch_get_def read_lane_drop_bit)
qed

lemma rshift_uint16_get:
  assumes "i < 16" and "unat k < 16"
  shows "batch_get UInt16 (bitwise_rshift UInt16 x k) i = batch_get UInt16 x i div 2 ^ unat k"
proof -
  have "(lane i (bitwise_rshift UInt16 x k) :: 16 word) = (lanes (bitwise_rshift UInt16 x k) :: 16 word list) ! i"
    using assms(1) by (simp add: nth_lanes)
  also have "\<dots> = map (drop_bit (unat k)) (lanes x) ! i"
    using assms(2) by (simp only: rshift_uint16_lanes)
  also have "\<dots> = drop_bit (unat k) (lane i x)"
    using assms(1) by (simp add: nth_lanes length_lanes)
  finally show ?thesis
    by (simp add: batch_get_def read_lane_drop_bit)
qed

lemma rshift_uint32_get:
  assumes "i < 8" and "unat k < 32"
  shows "batch_get UInt32 (bitwise_rshift UInt32 x k) i = batch_get UInt32 x i div 2 ^ unat k"
proof -
  have "(lane i (bitwise_rshift UInt32 x k) :: 32 word) = (lanes (bitwise_rshift UInt32 x k) :: 32 word list) ! i"
    using assms(1) by (simp add: nth_lanes)
  also have "\<dots> = map (drop_bit (unat k)) (lanes x) ! i"
    using assms(2) by (simp only: rshift_uint32_lanes)
  also have "\<dots> = drop_bit (unat k) (lane i x)"
    using assms(1) by (simp add: nth_lanes length_lanes)
  finally show ?thesis
    by (simp add: batch_get_def read_lane_drop_bit)
qed

lemma rshift_uint64_get:
  assumes "i < 4" and "unat k < 64"
  shows "batch_get UInt64 (bitwise_rshift UInt64 x k) i = batch_get UInt64 x i div 2 ^ unat k"
proof -
  have "(lane i (bitwise_rshift UInt64 x k) :: 64 word) = (lanes (bitwise_rshift UInt64 x k) :: 64 word list) ! i"
    using assms(1) by (simp add: nth_lanes)
  also have "\<dots> = map (drop_bit (unat k)) (lanes x) ! i"
    using assms(2) by (simp only: rshift_uint64_lanes)
  also have "\<dots> = drop_bit (unat k) (lane i x)"
    using assms(1) by (simp add: nth_lanes length_lanes)
  finally show ?thesis
    by (simp add: batch_get_def read_lane_drop_bit)
qed

lemma rshift_batch_get:
  assumes "i < batch_size T" and "unat k < 8 * sizeof T"
  shows "batch_get T (bitwise_rshift T x k) i = batch_get T x i div 2 ^ unat k"
  using assms
  by (cases T)
     (simp_all add: batch_size_def rshift_int8_get rshift_int16_get rshift_int32_get rshift_int64_get
        rshift_uint8_get rshift_uint16_get rshift_uint32_get rshift_uint64_get)


lemma batch_get_int32_list:
  "map (batch_get Int32 r) [0..<8] = map sint (lanes r :: 32 word list)"
  by (rule nth_equalityI) (simp_all add: batch_get_def read_lane_def length_lanes nth_lanes)

text \<open>
  C6. For every integer element type \<open>T\<close>, every shift amount \<open>k\<close> with
  \<open>0 \<le> k < 8 * sizeof(T)\<close> and every lane \<open>i\<close>, the value of lane \<open>i\<close> of the batch shifted
  right by \<open>k\<close> is the floor division by \<open>2 ^ k\<close> of the value of lane \<open>i\<close>, the value
  being the lane read as a signed number when \<open>T\<close> is signed (an arithmetic shift, the
  1-byte case built from the sign mask and the 2-byte arithmetic shift included) and as
  an unsigned number when \<open>T\<close> is unsigned (a logical shift). The signed 32-bit batch
  \<open>[0, 1, 2, 3, 4, 5, 6, 7]\<close> shifted right by 1 is \<open>[0, 0, 1, 1, 2, 2, 3, 3]\<close>, and
  \<open>[0, -1, -2, -3, -4, -5, -6, -7]\<close> shifted right by 1 is
  \<open>[0, -1, -1, -2, -2, -3, -3, -4]\<close>.
\<close>

theorem bitwise_rshift_signedness:
  fixes k :: cint and x :: m256i
  shows
  "(\<forall>T i. 0 \<le> sint k \<and> sint k < 8 * int (sizeof T) \<and> i < batch_size T \<longrightarrow>
      batch_get T (batch_rshift_assign T x k) i = batch_get T x i div 2 ^ nat (sint k))
   \<and> map (batch_get Int32 (batch_rshift_assign Int32 (of_lanes [0, 1, 2, 3, 4, 5, 6, 7 :: 32 word]) 1))
         [0..<8]
       = [0, 0, 1, 1, 2, 2, 3, 3]
   \<and> map (batch_get Int32 (batch_rshift_assign Int32
           (of_lanes [0, - 1, - 2, - 3, - 4, - 5, - 6, - 7 :: 32 word]) 1)) [0..<8]
       = [0, - 1, - 1, - 2, - 2, - 3, - 3, - 4]"
proof (intro conjI allI impI; (elim conjE)?)
  fix T i
  assume k: "0 \<le> sint k" "sint k < 8 * int (sizeof T)" and i: "i < batch_size T"
  from k have u: "unat k = nat (sint k)"
    by (simp add: unat_nonneg_cint)
  with k have "unat k < 8 * sizeof T"
    by simp
  with i have "batch_get T (bitwise_rshift T x k) i = batch_get T x i div 2 ^ unat k"
    by (rule rshift_batch_get)
  then show "batch_get T (batch_rshift_assign T x k) i = batch_get T x i div 2 ^ nat (sint k)"
    by (simp only: batch_rshift_assign_def u)
next
  show "map (batch_get Int32 (batch_rshift_assign Int32 (of_lanes [0, 1, 2, 3, 4, 5, 6, 7 :: 32 word]) 1))
         [0..<8]
       = [0, 0, 1, 1, 2, 2, 3, 3]"
    by (simp only: batch_get_int32_list rshift_scenario_positive) simp
next
  show "map (batch_get Int32 (batch_rshift_assign Int32
           (of_lanes [0, - 1, - 2, - 3, - 4, - 5, - 6, - 7 :: 32 word]) 1)) [0..<8]
       = [0, - 1, - 1, - 2, - 2, - 3, - 3, - 4]"
    by (simp only: batch_get_int32_list rshift_scenario_negative)
qed

theorem bitwise_rshift_signedness_witness:
  "0 \<le> sint (3 :: cint) \<and> sint (3 :: cint) < 8 * int (sizeof Int8) \<and> 1 < batch_size Int8
   \<and> batch_get Int8 (of_lanes [127, - 128, - 1, 1, 127, - 128, - 1, 1, 127, - 128, - 1, 1, 127, - 128, - 1, 1, 127, - 128, - 1, 1, 127, - 128, - 1, 1, 127, - 128, - 1, 1, 127, - 128, - 1, 1 :: 8 word]) 1 = - 128
   \<and> batch_get Int8 (batch_rshift_assign Int8 (of_lanes [127, - 128, - 1, 1, 127, - 128, - 1, 1, 127, - 128, - 1, 1, 127, - 128, - 1, 1, 127, - 128, - 1, 1, 127, - 128, - 1, 1, 127, - 128, - 1, 1, 127, - 128, - 1, 1 :: 8 word]) 3) 1 = - 16"
proof -
  have k: "0 \<le> sint (3 :: cint)" "sint (3 :: cint) < 8 * int (sizeof Int8)" "1 < batch_size Int8"
    by (simp_all add: batch_size_def)
  have "(lane 1 (of_lanes [127, - 128, - 1, 1, 127, - 128, - 1, 1, 127, - 128, - 1, 1, 127, - 128, - 1, 1, 127, - 128, - 1, 1, 127, - 128, - 1, 1, 127, - 128, - 1, 1, 127, - 128, - 1, 1 :: 8 word] :: m256i) :: 8 word) = - 128"
    by (rule trans [OF lane_of_lanes]) simp_all
  then have g: "batch_get Int8 (of_lanes [127, - 128, - 1, 1, 127, - 128, - 1, 1, 127, - 128, - 1, 1, 127, - 128, - 1, 1, 127, - 128, - 1, 1, 127, - 128, - 1, 1, 127, - 128, - 1, 1, 127, - 128, - 1, 1 :: 8 word]) 1 = - 128"
    by (simp add: batch_get_def read_lane_def del: of_lanes.simps)
  show ?thesis
    using bitwise_rshift_signedness [of 3 "of_lanes [127, - 128, - 1, 1, 127, - 128, - 1, 1, 127, - 128, - 1, 1, 127, - 128, - 1, 1, 127, - 128, - 1, 1, 127, - 128, - 1, 1, 127, - 128, - 1, 1, 127, - 128, - 1, 1 :: 8 word]",
        THEN conjunct1, rule_format, of Int8 1] k g
    by (simp del: of_lanes.simps)
qed

section \<open>The select law on lane values\<close>

lemma valid_batch_bool_lane_8:
  assumes "sizeof T = 1" and "valid_batch_bool T c" and "i < 32"
  shows "valid_lane (lane i c :: 8 word)"
proof -
  from assms(1,2) have "list_all valid_lane (lanes c :: 8 word list)"
    by (simp add: valid_batch_bool_def)
  with assms(3) have "valid_lane (lanes c ! i :: 8 word)"
    by (simp add: list_all_length length_lanes)
  with assms(3) show ?thesis
    by (simp add: nth_lanes)
qed

lemma select_get_8:
  assumes "sizeof T = 1" and "valid_batch_bool T c" and "i < 32"
  shows "batch_get T (select T c a b) i
      = (if batch_bool_get T c i then batch_get T a i else batch_get T b i)"
proof -
  have "(lane i (select T c a b) :: 8 word)
      = (if bool_of_lane (lane i c :: 8 word) then lane i a else lane i b)"
    using assms by (intro select_lane valid_batch_bool_lane_8) simp_all
  with assms(1,3) show ?thesis
    by (simp add: batch_get_8 batch_bool_get_8)
qed

lemma valid_batch_bool_lane_16:
  assumes "sizeof T = 2" and "valid_batch_bool T c" and "i < 16"
  shows "valid_lane (lane i c :: 16 word)"
proof -
  from assms(1,2) have "list_all valid_lane (lanes c :: 16 word list)"
    by (simp add: valid_batch_bool_def)
  with assms(3) have "valid_lane (lanes c ! i :: 16 word)"
    by (simp add: list_all_length length_lanes)
  with assms(3) show ?thesis
    by (simp add: nth_lanes)
qed

lemma select_get_16:
  assumes "sizeof T = 2" and "valid_batch_bool T c" and "i < 16"
  shows "batch_get T (select T c a b) i
      = (if batch_bool_get T c i then batch_get T a i else batch_get T b i)"
proof -
  have "(lane i (select T c a b) :: 16 word)
      = (if bool_of_lane (lane i c :: 16 word) then lane i a else lane i b)"
    using assms by (intro select_lane valid_batch_bool_lane_16) simp_all
  with assms(1,3) show ?thesis
    by (simp add: batch_get_16 batch_bool_get_16)
qed

lemma valid_batch_bool_lane_32:
  assumes "sizeof T = 4" and "valid_batch_bool T c" and "i < 8"
  shows "valid_lane (lane i c :: 32 word)"
proof -
  from assms(1,2) have "list_all valid_lane (lanes c :: 32 word list)"
    by (simp add: valid_batch_bool_def)
  with assms(3) have "valid_lane (lanes c ! i :: 32 word)"
    by (simp add: list_all_length length_lanes)
  with assms(3) show ?thesis
    by (simp add: nth_lanes)
qed

lemma select_get_32:
  assumes "sizeof T = 4" and "valid_batch_bool T c" and "i < 8"
  shows "batch_get T (select T c a b) i
      = (if batch_bool_get T c i then batch_get T a i else batch_get T b i)"
proof -
  have "(lane i (select T c a b) :: 32 word)
      = (if bool_of_lane (lane i c :: 32 word) then lane i a else lane i b)"
    using assms by (intro select_lane valid_batch_bool_lane_32) simp_all
  with assms(1,3) show ?thesis
    by (simp add: batch_get_32 batch_bool_get_32)
qed

lemma valid_batch_bool_lane_64:
  assumes "sizeof T = 8" and "valid_batch_bool T c" and "i < 4"
  shows "valid_lane (lane i c :: 64 word)"
proof -
  from assms(1,2) have "list_all valid_lane (lanes c :: 64 word list)"
    by (simp add: valid_batch_bool_def)
  with assms(3) have "valid_lane (lanes c ! i :: 64 word)"
    by (simp add: list_all_length length_lanes)
  with assms(3) show ?thesis
    by (simp add: nth_lanes)
qed

lemma select_get_64:
  assumes "sizeof T = 8" and "valid_batch_bool T c" and "i < 4"
  shows "batch_get T (select T c a b) i
      = (if batch_bool_get T c i then batch_get T a i else batch_get T b i)"
proof -
  have "(lane i (select T c a b) :: 64 word)
      = (if bool_of_lane (lane i c :: 64 word) then lane i a else lane i b)"
    using assms by (intro select_lane valid_batch_bool_lane_64) simp_all
  with assms(1,3) show ?thesis
    by (simp add: batch_get_64 batch_bool_get_64)
qed

lemma select_batch_get:
  assumes "valid_batch_bool T c" and "i < batch_size T"
  shows "batch_get T (select T c a b) i
      = (if batch_bool_get T c i then batch_get T a i else batch_get T b i)"
  using batch_size_cases [of T] assms
  by (elim disjE conjE) (simp_all add: select_get_8 select_get_16 select_get_32 select_get_64)

lemma select_constant_batch_get:
  assumes len: "length vs = batch_size T" and i: "i < batch_size T"
    and il: "sizeof T = 8 \<Longrightarrow>
      (\<And>m n. n < 4 \<Longrightarrow> bit (il m) (2 * n) = bit m n \<and> bit (il m) (2 * n + 1) = bit m n)"
  shows "batch_get T (select_constant il T vs a b) i
      = (if bbc_get vs i then batch_get T a i else batch_get T b i)"
proof -
  consider "sizeof T = 1" "batch_size T = 32" | "sizeof T = 2" "batch_size T = 16"
    | "sizeof T = 4" "batch_size T = 8" | "sizeof T = 8" "batch_size T = 4"
    using batch_size_cases [of T] by blast
  then show ?thesis
  proof cases
    case 1
    with len i show ?thesis
      by (simp add: batch_get_8 select_constant_1_lane)
  next
    case 2
    with len i show ?thesis
      by (simp add: batch_get_16 select_constant_2_lane)
  next
    case 3
    with len i show ?thesis
      by (simp add: batch_get_32 select_constant_4_lane)
  next
    case 4
    with len i have "(lane i (select_constant il T vs a b) :: 64 word)
        = (if bbc_get vs i then lane i a else lane i b)"
      using il [OF 4(1)] by (intro select_constant_8_lane) simp_all
    with 4 show ?thesis
      by (simp add: batch_get_64)
  qed
qed

text \<open>
  C7. For every element type \<open>T\<close>, every mask \<open>cond\<close> whose lanes are all ones or all
  zeros, all batches \<open>a\<close> and \<open>b\<close> and every lane \<open>i\<close>:
  \<open>select(cond, a, b).get(i)\<close> is \<open>a.get(i)\<close> where \<open>cond.get(i)\<close> holds and \<open>b.get(i)\<close>
  elsewhere. The same holds for the specialization on a \<open>batch_bool_constant\<close> of one
  value per lane, with its \<open>get(i)\<close>: through the immediate \<open>mask()\<close> for 4-byte lanes,
  through the interleaved \<open>mask()\<close> for 8-byte lanes provided \<open>detail::interleave\<close> copies
  bit \<open>n\<close> of its argument to bits \<open>2n\<close> and \<open>2n + 1\<close>, and through the run-time kernel for
  1-byte and 2-byte lanes.
\<close>

theorem select_law:
  fixes cond a b :: m256i
  shows
  "(\<forall>T i. valid_batch_bool T cond \<and> i < batch_size T \<longrightarrow>
      batch_get T (select T cond a b) i
        = (if batch_bool_get T cond i then batch_get T a i else batch_get T b i))
   \<and> (\<forall>T vs i. length vs = batch_size T \<and> i < batch_size T
        \<and> (sizeof T = 8 \<longrightarrow>
             (\<forall>m n. n < 4 \<longrightarrow> bit (il m) (2 * n) = bit m n \<and> bit (il m) (2 * n + 1) = bit m n))
      \<longrightarrow> batch_get T (select_constant il T vs a b) i
        = (if bbc_get vs i then batch_get T a i else batch_get T b i))"
proof (intro conjI allI impI; (elim conjE)?)
  fix T i
  assume "valid_batch_bool T cond" "i < batch_size T"
  then show "batch_get T (select T cond a b) i
        = (if batch_bool_get T cond i then batch_get T a i else batch_get T b i)"
    by (rule select_batch_get)
next
  fix T and vs :: "bool list" and i :: nat
  assume "length vs = batch_size T" "i < batch_size T"
    and "sizeof T = 8 \<longrightarrow>
      (\<forall>m n. n < 4 \<longrightarrow> bit (il m) (2 * n) = bit m n \<and> bit (il m) (2 * n + 1) = bit m n)"
  then show "batch_get T (select_constant il T vs a b) i
        = (if bbc_get vs i then batch_get T a i else batch_get T b i)"
    by (intro select_constant_batch_get) simp_all
qed

theorem select_law_witness:
  "batch_get Int32 (select Int32 (batch_bool_set Int32 [True, False, True, False, False, False, True, True])
                         (of_lanes [1, 2, 3, 4, 5, 6, 7, 8 :: 32 word])
                         (of_lanes [11, 12, 13, 14, 15, 16, 17, 18 :: 32 word])) 2 = 3
   \<and> batch_get Int32 (select_constant interleave_bits Int32 [True, False, True, False, False, False, True, True]
                         (of_lanes [1, 2, 3, 4, 5, 6, 7, 8 :: 32 word])
                         (of_lanes [11, 12, 13, 14, 15, 16, 17, 18 :: 32 word])) 5 = 16
   \<and> batch_get Int64 (select_constant interleave_bits Int64 [True, False, False, True]
                         (of_lanes [1, 2, 3, 4 :: 64 word])
                         (of_lanes [11, 12, 13, 14 :: 64 word])) 3 = 4"
proof -
  let ?vs = "[True, False, True, False, False, False, True, True]"
  let ?c = "batch_bool_set Int32 ?vs"
  let ?a = "of_lanes [1, 2, 3, 4, 5, 6, 7, 8 :: 32 word] :: m256i"
  let ?b = "of_lanes [11, 12, 13, 14, 15, 16, 17, 18 :: 32 word] :: m256i"
  let ?a4 = "of_lanes [1, 2, 3, 4 :: 64 word] :: m256i"
  let ?b4 = "of_lanes [11, 12, 13, 14 :: 64 word] :: m256i"
  have l: "(lanes ?c :: 32 word list) = map bool_pattern ?vs"
    unfolding batch_bool_set_def by (simp add: lanes_of_lanes del: of_lanes.simps)
  have v: "valid_batch_bool Int32 ?c"
    by (simp add: valid_batch_bool_def l valid_lane_pattern del: of_lanes.simps)
  have "(lane 2 ?c :: 32 word) = (lanes ?c :: 32 word list) ! 2"
    by (simp add: nth_lanes del: of_lanes.simps)
  then have "(lane 2 ?c :: 32 word) = bool_pattern True"
    by (simp add: l)
  then have c: "batch_bool_get Int32 ?c 2"
    by (simp add: batch_bool_get_32 bool_of_lane_pattern del: of_lanes.simps)
  have "(lane 2 ?a :: 32 word) = 3"
    by (rule trans [OF lane_of_lanes]) simp_all
  then have a: "batch_get Int32 ?a 2 = 3"
    by (simp add: batch_get_def read_lane_def del: of_lanes.simps)
  have "(lane 5 ?b :: 32 word) = 16"
    by (rule trans [OF lane_of_lanes]) simp_all
  then have b: "batch_get Int32 ?b 5 = 16"
    by (simp add: batch_get_def read_lane_def del: of_lanes.simps)
  have "(lane 3 ?a4 :: 64 word) = 4"
    by (rule trans [OF lane_of_lanes]) simp_all
  then have a4: "batch_get Int64 ?a4 3 = 4"
    by (simp add: batch_get_def read_lane_def del: of_lanes.simps)
  have g: "\<not> bbc_get ?vs 5" "bbc_get [True, False, False, True] 3"
    by (simp_all add: bbc_get_def)
  have s: "(2::nat) < batch_size Int32" "(5::nat) < batch_size Int32" "(3::nat) < batch_size Int64"
    "length ?vs = batch_size Int32" "length [True, False, False, True] = batch_size Int64"
    by (simp_all add: batch_size_def)
  have 1: "batch_get Int32 (select Int32 ?c ?a ?b) 2 = 3"
    using select_law [of ?c ?a ?b interleave_bits, THEN conjunct1, rule_format, of Int32 2] v s(1) c a
    by (simp del: of_lanes.simps)
  have 2: "batch_get Int32 (select_constant interleave_bits Int32 ?vs ?a ?b) 5 = 16"
    using select_law [of ?c ?a ?b interleave_bits, THEN conjunct2, rule_format, of ?vs Int32 5] s g b
    by (simp del: of_lanes.simps)
  have 3: "batch_get Int64 (select_constant interleave_bits Int64 [True, False, False, True] ?a4 ?b4) 3 = 4"
    using select_law [of ?c ?a4 ?b4 interleave_bits, THEN conjunct2, rule_format,
        of "[True, False, False, True]" Int64 3] s g a4 interleave_bits_doubles
    by (simp del: of_lanes.simps)
  from 1 2 3 show ?thesis
    by (intro conjI)
qed

end
